theory Spec2Isabelle
  imports Complex_Main
begin

section \<open>Data model\<close>

text \<open>
  The four compartments of \<^verbatim>\<open>class AgentState\<close>. The source numbers them 0 to 3 and
  only ever compares them for equality.
\<close>

datatype AgentState = SUSCEPTIBLE | LATENT | INFECTED | RECOVERED

text \<open>The Python exceptions that the modelled code can raise.\<close>

datatype error = ZeroDivisionError | AttributeError | ValueError | IndexError

text \<open>
  The attributes that the notebook attaches to an agent. \<^verbatim>\<open>state_next\<close> is not
  assigned by \<^verbatim>\<open>set_up_agent_variable_attributes\<close>: it exists only once
  \<^verbatim>\<open>update_agent\<close> has written it, so it is optional here. Python floats are
  modelled as rationals, Python integers as \<open>int\<close>.
\<close>

record vine =
  state :: AgentState
  state_next :: "AgentState option"
  initial_state :: AgentState
  infectivity_offset :: int
  latency_counter :: int
  latency_duration :: rat

text \<open>
  The module-level variables of the notebook. Only \<^verbatim>\<open>model_generation\<close> is ever
  assigned again (by \<^verbatim>\<open>step\<close>).
\<close>

record globals =
  model_generation :: int
  intercropping_distance :: int
  intercropping_row_count :: int
  default_infectivity_offset :: int
  resistant_infectivity_offset :: int
  default_latency_duration :: int
  default_infectivity :: int
  removal_threshold :: int
  recovery_rate :: rat

text \<open>
  The values the notebook gives them (\<^verbatim>\<open>recovery_rate = 0.001\<close>, in Python the float
  nearest to it).
\<close>

definition notebook_globals :: globals where
  "notebook_globals =
     \<lparr>model_generation = 0,
      intercropping_distance = 5,
      intercropping_row_count = 5,
      default_infectivity_offset = 10,
      resistant_infectivity_offset = 180,
      default_latency_duration = 8,
      default_infectivity = 10,
      removal_threshold = 10,
      recovery_rate = 1 / 1000\<rparr>"

section \<open>Spatial heterogeneity\<close>

text \<open>
  \<^verbatim>\<open>x_coordinate % (intercropping_distance + intercropping_row_count) >= intercropping_distance\<close>.
  Python's \<^verbatim>\<open>%\<close> on integers is the floored remainder, as \<open>mod\<close> on \<open>int\<close> is, and
  raises on a zero divisor.
\<close>

definition is_intercropped_resistant_cultivar :: "globals \<Rightarrow> int \<times> int \<Rightarrow> error + bool" where
  "is_intercropped_resistant_cultivar gl position =
     (let x_coordinate = fst position;
          y_coordinate = snd position
      in if intercropping_distance gl + intercropping_row_count gl = 0
         then Inl ZeroDivisionError
         else Inr (x_coordinate mod (intercropping_distance gl + intercropping_row_count gl)
                     \<ge> intercropping_distance gl))"

text \<open>
  \<^verbatim>\<open>random.gauss(mu, sigma)\<close> returns \<^verbatim>\<open>mu + z * sigma\<close> for a standard normal
  deviate \<open>z\<close>, taken exactly here; the deviates are an input of the model (\<open>zs n\<close> is
  the one of the \<open>n\<close>-th call).
\<close>

definition random_gauss :: "rat \<Rightarrow> rat \<Rightarrow> rat \<Rightarrow> rat" where
  "random_gauss mu sigma z = mu + z * sigma"

text \<open>
  The body of the loop of \<^verbatim>\<open>set_up_agent_variable_attributes\<close> for one agent at
  \<open>position\<close>, with deviate \<open>z\<close>.
\<close>

definition set_up_agent :: "globals \<Rightarrow> int \<times> int \<Rightarrow> rat \<Rightarrow> error + vine" where
  "set_up_agent gl position z =
     (case is_intercropped_resistant_cultivar gl position of
        Inl e \<Rightarrow> Inl e
      | Inr is_resistant_cultivar \<Rightarrow>
          Inr \<lparr>state = (if is_resistant_cultivar then RECOVERED else SUSCEPTIBLE),
               state_next = None,
               initial_state = (if is_resistant_cultivar then RECOVERED else SUSCEPTIBLE),
               infectivity_offset =
                 (if is_resistant_cultivar then resistant_infectivity_offset gl
                  else default_infectivity_offset gl),
               latency_counter = 0,
               latency_duration = random_gauss (of_int (default_latency_duration gl)) 2 z\<rparr>)"

text \<open>
  \<^verbatim>\<open>for agent in grid.agents\<close>: the agents in the order of the grid, the \<open>i\<close>-th
  agent at the \<open>i\<close>-th position; \<open>n\<close> counts the calls of \<^verbatim>\<open>random.gauss\<close> made so far.
\<close>

fun set_up_agent_variable_attributes ::
  "globals \<Rightarrow> (int \<times> int) list \<Rightarrow> (nat \<Rightarrow> rat) \<Rightarrow> nat \<Rightarrow> error + vine list" where
  "set_up_agent_variable_attributes gl [] zs n = Inr []"
| "set_up_agent_variable_attributes gl (position # ps) zs n =
     (case set_up_agent gl position (zs n) of
        Inl e \<Rightarrow> Inl e
      | Inr agent \<Rightarrow>
          (case set_up_agent_variable_attributes gl ps zs (Suc n) of
             Inl e \<Rightarrow> Inl e
           | Inr agents \<Rightarrow> Inr (agent # agents)))"

section \<open>State transitions\<close>

text \<open>
  \<^verbatim>\<open>random.random()\<close> returns a float in \<open>[0.0, 1.0)\<close>. The draws are an input of the
  model: \<open>rs k\<close> is the value of the \<open>k\<close>-th call, and every function that draws
  returns the number of calls made so far.

  In \<^verbatim>\<open>s_2_l\<close> the quotient of the two integers is taken exactly here; Python rounds it
  to the nearest float, which is exact when the numerator is 0. The draw is made before
  the division, and the division raises when the denominator is 0.
\<close>

definition s_2_l :: "globals \<Rightarrow> vine \<Rightarrow> vine list \<Rightarrow> (nat \<Rightarrow> rat) \<Rightarrow> nat \<Rightarrow> error + bool \<times> nat" where
  "s_2_l gl vine neighbors rs k =
     (let neighborhood_infectivity =
            default_infectivity gl * int (length (filter (\<lambda>n. state n = INFECTED) neighbors));
          prob = rs k
      in if neighborhood_infectivity + infectivity_offset vine = 0
         then Inl ZeroDivisionError
         else Inr (prob \<le> of_int neighborhood_infectivity
                             / of_int (neighborhood_infectivity + infectivity_offset vine),
                   Suc k))"

definition l_2_i :: "vine \<Rightarrow> vine list \<Rightarrow> bool" where
  "l_2_i vine neighbors = (of_int (latency_counter vine) \<ge> latency_duration vine)"

definition self_recovery :: "globals \<Rightarrow> vine \<Rightarrow> vine list \<Rightarrow> (nat \<Rightarrow> rat) \<Rightarrow> nat \<Rightarrow> bool \<times> nat" where
  "self_recovery gl vine neighbors rs k = (rs k \<le> recovery_rate gl, Suc k)"

text \<open>
  \<^verbatim>\<open>model_generation > 0 and model_generation % removal_threshold == 0\<close>: the
  remainder is only taken when the first conjunct holds.
\<close>

definition manual_removal :: "globals \<Rightarrow> vine \<Rightarrow> vine list \<Rightarrow> error + bool" where
  "manual_removal gl vine neighbors =
     (if model_generation gl > 0
      then (if removal_threshold gl = 0 then Inl ZeroDivisionError
            else Inr (model_generation gl mod removal_threshold gl = 0))
      else Inr False)"

section \<open>The agent as a state machine\<close>

text \<open>
  \<^verbatim>\<open>update_agent\<close> is three \<^verbatim>\<open>if\<close> statements in sequence, each testing
  \<^verbatim>\<open>vine.state\<close>; the model keeps them as three blocks run one after the other.
\<close>

definition update_healthy ::
  "globals \<Rightarrow> vine \<Rightarrow> vine list \<Rightarrow> (nat \<Rightarrow> rat) \<Rightarrow> nat \<Rightarrow> error + vine \<times> nat" where
  "update_healthy gl vine neighbors rs k =
     (if state vine = SUSCEPTIBLE \<or> state vine = RECOVERED
      then (case s_2_l gl vine neighbors rs k of
              Inl e \<Rightarrow> Inl e
            | Inr (fires, k') \<Rightarrow>
                Inr (vine\<lparr>state_next := Some (if fires then LATENT else state vine)\<rparr>, k'))
      else Inr (vine, k))"

definition update_latent :: "vine \<Rightarrow> vine list \<Rightarrow> vine" where
  "update_latent vine neighbors =
     (if state vine = LATENT
      then (let counted = vine\<lparr>latency_counter := latency_counter vine + 1\<rparr>
            in counted\<lparr>state_next :=
                 Some (if l_2_i counted neighbors then INFECTED else state counted)\<rparr>)
      else vine)"

definition update_infected ::
  "globals \<Rightarrow> vine \<Rightarrow> vine list \<Rightarrow> (nat \<Rightarrow> rat) \<Rightarrow> nat \<Rightarrow> error + vine \<times> nat" where
  "update_infected gl vine neighbors rs k =
     (if state vine = INFECTED
      then (let reset = vine\<lparr>latency_counter := 0\<rparr>;
                (recovers, k') = self_recovery gl reset neighbors rs k
            in if recovers
               then Inr (reset\<lparr>initial_state := RECOVERED,
                               state_next := Some RECOVERED,
                               infectivity_offset := resistant_infectivity_offset gl\<rparr>, k')
               else (case manual_removal gl reset neighbors of
                       Inl e \<Rightarrow> Inl e
                     | Inr removed \<Rightarrow>
                         if removed
                         then Inr (reset\<lparr>state_next := Some (initial_state reset)\<rparr>, k')
                         else Inr (reset\<lparr>state_next := Some (state reset)\<rparr>, k')))
      else Inr (vine, k))"

definition update_agent ::
  "globals \<Rightarrow> vine \<Rightarrow> vine list \<Rightarrow> (nat \<Rightarrow> rat) \<Rightarrow> nat \<Rightarrow> error + vine \<times> nat" where
  "update_agent gl vine neighbors rs k =
     (case update_healthy gl vine neighbors rs k of
        Inl e \<Rightarrow> Inl e
      | Inr (vine1, k1) \<Rightarrow> update_infected gl (update_latent vine1 neighbors) neighbors rs k1)"

section \<open>The cellular automaton\<close>

text \<open>
  The \<^verbatim>\<open>parameters\<close> dictionary (its key \<^verbatim>\<open>size\<close> is \<open>size'\<close> here) and the
  model object. Agents are objects that the agent list, the grid and every neighbour
  list share; here an agent is named by its index in \<open>agents\<close>, which is the store of
  all agent attributes, and \<open>positions\<close> gives the grid cell of each agent
  (\<^verbatim>\<open>grid.positions\<close>). \<open>t\<close> and \<open>running\<close> are the fields of \<^verbatim>\<open>ap.Model\<close> that
  \<^verbatim>\<open>step\<close> reads and \<^verbatim>\<open>stop\<close> writes.
\<close>

record parameters =
  size' :: int
  initial_infection_count :: int
  steps :: int

record model =
  p :: parameters
  t :: int
  running :: bool
  agents :: "vine list"
  positions :: "(int \<times> int) list"

text \<open>
  Modelled from the spec: \<^verbatim>\<open>Grid.neighbors\<close> belongs to the agentpy library, which is
  not part of the sources. It returns the agents of the up to 8 adjacent cells, without
  the agent itself and without wrap-around. The general theorems below hold for any
  choice of neighbours.
\<close>

definition vineyard_neighbors :: "(int \<times> int) list \<Rightarrow> nat \<Rightarrow> nat list" where
  "vineyard_neighbors ps i =
     filter (\<lambda>j. j \<noteq> i \<and> \<bar>fst (ps ! j) - fst (ps ! i)\<bar> \<le> 1 \<and> \<bar>snd (ps ! j) - snd (ps ! i)\<bar> \<le> 1)
       [0..<length ps]"

text \<open>
  The first loop of \<^verbatim>\<open>step\<close>, over the agents \<open>todo\<close> still to visit. The neighbour
  list holds the agent objects themselves, so it is read from the store as it is when
  the agent is visited, after the updates of the agents visited before; \<open>nb i\<close> names the
  neighbours of agent \<open>i\<close>. \<^verbatim>\<open>update_agent\<close> mutates the visited agent in place.
\<close>

fun compute_next ::
  "globals \<Rightarrow> (nat \<Rightarrow> nat list) \<Rightarrow> (nat \<Rightarrow> rat) \<Rightarrow> nat list \<Rightarrow> vine list \<Rightarrow> nat
     \<Rightarrow> error + vine list \<times> nat" where
  "compute_next gl nb rs [] store k = Inr (store, k)"
| "compute_next gl nb rs (i # todo) store k =
     (let neighboring_vines = map (\<lambda>j. store ! j) (nb i)
      in case update_agent gl (store ! i) neighboring_vines rs k of
           Inl e \<Rightarrow> Inl e
         | Inr (vine, k') \<Rightarrow> compute_next gl nb rs todo (store[i := vine]) k')"

text \<open>
  The second loop of \<^verbatim>\<open>step\<close>: \<^verbatim>\<open>vine.state = vine.state_next\<close>, which raises when
  the attribute was never written.
\<close>

definition commit :: "vine \<Rightarrow> error + vine" where
  "commit vine =
     (case state_next vine of
        None \<Rightarrow> Inl AttributeError
      | Some s \<Rightarrow> Inr (vine\<lparr>state := s\<rparr>))"

fun commit_all :: "vine list \<Rightarrow> error + vine list" where
  "commit_all [] = Inr []"
| "commit_all (vine # vines) =
     (case commit vine of
        Inl e \<Rightarrow> Inl e
      | Inr vine' \<Rightarrow>
          (case commit_all vines of
             Inl e \<Rightarrow> Inl e
           | Inr vines' \<Rightarrow> Inr (vine' # vines')))"

text \<open>
  \<^verbatim>\<open>VineInfectionModel.step\<close>. It returns the module variables (of which it assigns
  \<^verbatim>\<open>model_generation\<close>), the model, and the number of uniform draws made so far.
  \<^verbatim>\<open>self.stop()\<close> clears \<open>running\<close>.
\<close>

definition step ::
  "globals \<Rightarrow> model \<Rightarrow> (nat \<Rightarrow> rat) \<Rightarrow> nat \<Rightarrow> error + globals \<times> model \<times> nat" where
  "step gl m rs k =
     (case compute_next gl (vineyard_neighbors (positions m)) rs
             [0..<length (agents m)] (agents m) k of
        Inl e \<Rightarrow> Inl e
      | Inr (computed, k') \<Rightarrow>
          (case commit_all computed of
             Inl e \<Rightarrow> Inl e
           | Inr committed \<Rightarrow>
               (let gl' = gl\<lparr>model_generation := t m\<rparr>;
                    latent_agent_count = length (filter (\<lambda>v. state v = LATENT) committed);
                    infected_agent_count = length (filter (\<lambda>v. state v = INFECTED) committed);
                    m' = m\<lparr>agents := committed\<rparr>
                in Inr (gl',
                        if latent_agent_count + infected_agent_count = 0
                        then m'\<lparr>running := False\<rparr> else m',
                        k'))))"

subsection \<open>Initialisation\<close>

text \<open>
  Modelled from the spec: \<^verbatim>\<open>ap.Grid\<close> and \<^verbatim>\<open>add_agents\<close> belong to the agentpy
  library. The grid has \<open>size \<times> size\<close> cells and every cell receives one agent, in the
  order of the cells (the first coordinate varies slowest). The library cannot build a
  grid whose side is not positive: \<^verbatim>\<open>ap.Grid(self, (0, 0))\<close> raises \<^verbatim>\<open>ValueError\<close>, and
  so does a negative side; \<open>model_setup\<close> below fails there.
\<close>

definition grid_positions :: "int \<Rightarrow> (int \<times> int) list" where
  "grid_positions n =
     map (\<lambda>(x, y). (int x, int y)) (List.product [0..<nat n] [0..<nat n])"

text \<open>
  Modelled from the spec: \<^verbatim>\<open>AgentList.random\<close> belongs to the agentpy library. It
  selects \<open>n\<close> of the agents without replacement. That it raises when \<open>n\<close> is negative
  or exceeds the number of agents is the behaviour of the library, not a statement of the
  spec: a single agent is chosen by \<^verbatim>\<open>choice\<close>, which raises \<^verbatim>\<open>IndexError\<close> on
  an empty list, more by \<^verbatim>\<open>sample\<close>, which raises \<^verbatim>\<open>ValueError\<close>. \<open>sel\<close> lists
  the agents in the order in which the random generator picks them.
\<close>

definition agents_random :: "nat \<Rightarrow> int \<Rightarrow> nat list \<Rightarrow> error + nat list" where
  "agents_random population n sel =
     (if n = 1
      then (if population = 0 then Inl IndexError else Inr (take 1 sel))
      else if n < 0 \<or> int population < n then Inl ValueError
      else Inr (take (nat n) sel))"

text \<open>\<^verbatim>\<open>initial_infected.state = AgentState.LATENT\<close>, for each selected agent in turn.\<close>

fun set_latent :: "nat list \<Rightarrow> vine list \<Rightarrow> vine list" where
  "set_latent [] store = store"
| "set_latent (i # sel) store = set_latent sel (store[i := (store ! i)\<lparr>state := LATENT\<rparr>])"

text \<open>
  \<^verbatim>\<open>VineInfectionModel.setup\<close> (named \<open>model_setup\<close> here), entered by agentpy
  with \<open>t = 0\<close> and \<open>running\<close> set (agentpy clears \<open>running\<close> right after the set-up
  when \<^verbatim>\<open>steps\<close> is not positive; the runs below have 200 steps). \<open>zs\<close> are the normal
  deviates of \<^verbatim>\<open>random.gauss\<close>, \<open>sel\<close> the agents picked by \<^verbatim>\<open>random\<close>.
\<close>

definition model_setup :: "globals \<Rightarrow> parameters \<Rightarrow> (nat \<Rightarrow> rat) \<Rightarrow> nat list \<Rightarrow> error + model" where
  "model_setup gl params zs sel =
     (if size' params < 1 then Inl ValueError
      else
        (let cells = grid_positions (size' params)
         in case set_up_agent_variable_attributes gl cells zs 0 of
              Inl e \<Rightarrow> Inl e
            | Inr vines \<Rightarrow>
                (case agents_random (length vines) (initial_infection_count params) sel of
                   Inl e \<Rightarrow> Inl e
                 | Inr initial_infected \<Rightarrow>
                     Inr \<lparr>p = params, t = 0, running = True,
                          agents = set_latent initial_infected vines,
                          positions = cells\<rparr>)))"

subsection \<open>The run loop\<close>

text \<open>
  Modelled from the spec: the loop that calls \<^verbatim>\<open>step\<close> belongs to the agentpy
  library. Each iteration advances \<open>t\<close>, calls \<^verbatim>\<open>step\<close> and clears \<open>running\<close> once
  \<open>t\<close> has reached \<^verbatim>\<open>steps\<close>; the loop goes on while \<open>running\<close> is set.
  \<open>sim_run n\<close> is the loop cut off after \<open>n\<close> iterations.
\<close>

definition sim_step ::
  "globals \<Rightarrow> model \<Rightarrow> (nat \<Rightarrow> rat) \<Rightarrow> nat \<Rightarrow> error + globals \<times> model \<times> nat" where
  "sim_step gl m rs k =
     (case step gl (m\<lparr>t := t m + 1\<rparr>) rs k of
        Inl e \<Rightarrow> Inl e
      | Inr (gl', m', k') \<Rightarrow>
          Inr (gl', if t m' \<ge> steps (p m') then m'\<lparr>running := False\<rparr> else m', k'))"

fun sim_run ::
  "nat \<Rightarrow> globals \<Rightarrow> model \<Rightarrow> (nat \<Rightarrow> rat) \<Rightarrow> nat \<Rightarrow> error + globals \<times> model \<times> nat" where
  "sim_run 0 gl m rs k = Inr (gl, m, k)"
| "sim_run (Suc n) gl m rs k =
     (if running m
      then (case sim_step gl m rs k of
              Inl e \<Rightarrow> Inl e
            | Inr (gl', m', k') \<Rightarrow> sim_run n gl' m' rs k')
      else Inr (gl, m, k))"

section \<open>The synchronous reading of a generation\<close>

text \<open>
  The reference against which the first loop of \<^verbatim>\<open>step\<close> is compared: the next
  state of every agent of \<open>todo\<close> is computed from one fixed \<open>snapshot\<close> of the store,
  taken before the generation, and nothing computed for one agent is visible to another.
  Only the count of uniform draws is passed on.
\<close>

fun synchronous_next ::
  "globals \<Rightarrow> (nat \<Rightarrow> nat list) \<Rightarrow> (nat \<Rightarrow> rat) \<Rightarrow> vine list \<Rightarrow> nat list \<Rightarrow> nat
     \<Rightarrow> error + vine list \<times> nat" where
  "synchronous_next gl nb rs snapshot [] k = Inr ([], k)"
| "synchronous_next gl nb rs snapshot (i # todo) k =
     (case update_agent gl (snapshot ! i) (map (\<lambda>j. snapshot ! j) (nb i)) rs k of
        Inl e \<Rightarrow> Inl e
      | Inr (vine, k') \<Rightarrow>
          (case synchronous_next gl nb rs snapshot todo k' of
             Inl e \<Rightarrow> Inl e
           | Inr (vines, k'') \<Rightarrow> Inr (vine # vines, k'')))"

text \<open>
  The number of uniform draws that a step makes before it visits agent \<open>i\<close>: every
  agent that is not latent draws exactly once, in \<^verbatim>\<open>s_2_l\<close> or in \<^verbatim>\<open>self_recovery\<close>.
\<close>

definition draws_before :: "vine list \<Rightarrow> nat \<Rightarrow> nat" where
  "draws_before store i = length (filter (\<lambda>j. state (store ! j) \<noteq> LATENT) [0..<i])"

section \<open>Sample inputs\<close>

text \<open>Constant sequences of uniform draws and of normal deviates.\<close>

definition zero_draws :: "nat \<Rightarrow> rat" where
  "zero_draws k = 0"

definition half_draws :: "nat \<Rightarrow> rat" where
  "half_draws k = 1 / 2"

definition zero_deviates :: "nat \<Rightarrow> rat" where
  "zero_deviates n = 0"

definition low_deviates :: "nat \<Rightarrow> rat" where
  "low_deviates n = - 4"

definition high_deviates :: "nat \<Rightarrow> rat" where
  "high_deviates n = 2"

text \<open>Agents of the default and of the resistant cultivar, in each compartment.\<close>

definition susceptible_vine :: vine where
  "susceptible_vine =
     \<lparr>state = SUSCEPTIBLE, state_next = None, initial_state = SUSCEPTIBLE,
      infectivity_offset = 10, latency_counter = 0, latency_duration = 8\<rparr>"

definition resistant_vine :: vine where
  "resistant_vine =
     \<lparr>state = RECOVERED, state_next = None, initial_state = RECOVERED,
      infectivity_offset = 180, latency_counter = 0, latency_duration = 8\<rparr>"

definition latent_vine :: vine where
  "latent_vine =
     \<lparr>state = LATENT, state_next = None, initial_state = SUSCEPTIBLE,
      infectivity_offset = 10, latency_counter = 0, latency_duration = 0\<rparr>"

definition infected_vine :: vine where
  "infected_vine =
     \<lparr>state = INFECTED, state_next = Some INFECTED, initial_state = SUSCEPTIBLE,
      infectivity_offset = 10, latency_counter = 0, latency_duration = 8\<rparr>"

text \<open>A single cell without seeds, and the model that \<open>model_setup\<close> builds for it.\<close>

definition single_cell :: parameters where
  "single_cell = \<lparr>size' = 1, initial_infection_count = 0, steps = 200\<rparr>"

definition lone_model :: model where
  "lone_model =
     \<lparr>p = single_cell, t = 0, running = True,
      agents = [susceptible_vine], positions = [(0, 0)]\<rparr>"

text \<open>
  A single seeded cell, and the model that \<open>model_setup\<close> builds for it when the latency
  duration is drawn as \<open>8 - 4 * 2 = 0\<close>.
\<close>

definition seeded_cell :: parameters where
  "seeded_cell = \<lparr>size' = 1, initial_infection_count = 1, steps = 200\<rparr>"

definition seeded_cell_model :: model where
  "seeded_cell_model =
     \<lparr>p = seeded_cell, t = 0, running = True,
      agents = [latent_vine], positions = [(0, 0)]\<rparr>"

text \<open>
  A grid of \<open>2 \<times> 2\<close> cells with one seed, the model that \<open>model_setup\<close> builds for it
  when every latency duration is drawn as \<open>8 - 4 * 2 = 0\<close> and the last agent is picked,
  and a later state of the same grid with an infected agent next to healthy ones.
\<close>

definition seeded_parameters :: parameters where
  "seeded_parameters = \<lparr>size' = 2, initial_infection_count = 1, steps = 200\<rparr>"

definition seeded_model :: model where
  "seeded_model =
     \<lparr>p = seeded_parameters, t = 0, running = True,
      agents = [susceptible_vine\<lparr>latency_duration := 0\<rparr>,
                susceptible_vine\<lparr>latency_duration := 0\<rparr>,
                susceptible_vine\<lparr>latency_duration := 0\<rparr>,
                latent_vine],
      positions = [(0, 0), (0, 1), (1, 0), (1, 1)]\<rparr>"

definition treated_model :: model where
  "treated_model =
     \<lparr>p = seeded_parameters, t = 11, running = True,
      agents = [infected_vine, susceptible_vine, susceptible_vine, latent_vine],
      positions = [(0, 0), (0, 1), (1, 0), (1, 1)]\<rparr>"

text \<open>The grid of \<open>20 \<times> 20\<close> cells without seeds, and the model set up on it.\<close>

definition sample_grid :: parameters where
  "sample_grid = \<lparr>size' = 20, initial_infection_count = 0, steps = 200\<rparr>"

definition sample_model :: model where
  "sample_model =
     (case model_setup notebook_globals sample_grid zero_deviates [] of
        Inl e \<Rightarrow> lone_model
      | Inr m \<Rightarrow> m)"

section \<open>Properties of the transition rules\<close>

lemma update_agent_healthy:
  assumes "state v = SUSCEPTIBLE \<or> state v = RECOVERED"
  shows "update_agent gl v ns rs k =
           (case s_2_l gl v ns rs k of
              Inl e \<Rightarrow> Inl e
            | Inr (fires, k') \<Rightarrow> Inr (v\<lparr>state_next := Some (if fires then LATENT else state v)\<rparr>, k'))"
  using assms
  by (auto simp: update_agent_def update_healthy_def update_latent_def update_infected_def
           split: sum.splits prod.splits)

lemma update_agent_latent:
  assumes "state v = LATENT"
  shows "update_agent gl v ns rs k =
           Inr (v\<lparr>latency_counter := latency_counter v + 1,
                  state_next := Some (if latency_duration v \<le> of_int (latency_counter v + 1)
                                      then INFECTED else LATENT)\<rparr>, k)"
  using assms
  by (simp add: update_agent_def update_healthy_def update_latent_def update_infected_def
        l_2_i_def Let_def)

lemma update_agent_infected:
  assumes "state v = INFECTED"
  shows "update_agent gl v ns rs k = update_infected gl v ns rs k"
  using assms
  by (simp add: update_agent_def update_healthy_def update_latent_def)

lemma update_agent_state:
  assumes "update_agent gl v ns rs k = Inr (w, k')"
  shows "state w = state v"
  using assms
  by (cases "state v")
     (auto simp: update_agent_healthy update_agent_latent update_agent_infected
        update_infected_def Let_def self_recovery_def
        split: sum.splits prod.splits if_splits)

lemma s_2_l_cong:
  assumes "map state ns = map state ns'"
  shows "s_2_l gl v ns rs k = s_2_l gl v ns' rs k"
proof -
  have "filter (\<lambda>s. s = INFECTED) (map state ns) = filter (\<lambda>s. s = INFECTED) (map state ns')"
    using assms by simp
  then have "length (filter (\<lambda>n. state n = INFECTED) ns) = length (filter (\<lambda>n. state n = INFECTED) ns')"
    by (metis (no_types, lifting) filter_map length_map comp_def filter_cong)
  then show ?thesis by (simp add: s_2_l_def)
qed

lemma update_agent_cong:
  assumes "map state ns = map state ns'"
  shows "update_agent gl v ns rs k = update_agent gl v ns' rs k"
  using s_2_l_cong [OF assms]
  by (cases "state v")
     (simp_all add: update_agent_healthy update_agent_latent update_agent_infected
        update_infected_def self_recovery_def manual_removal_def Let_def)

lemma update_agent_state_next:
  assumes "update_agent gl v ns rs k = Inr (w, k')"
  shows "state_next w \<noteq> None"
  using assms
  by (cases "state v")
     (auto simp: update_agent_healthy update_agent_latent update_agent_infected
        update_infected_def Let_def self_recovery_def
        split: sum.splits prod.splits if_splits)

lemma update_agent_duration:
  assumes "update_agent gl v ns rs k = Inr (w, k')"
  shows "latency_duration w = latency_duration v"
  using assms
  by (cases "state v")
     (auto simp: update_agent_healthy update_agent_latent update_agent_infected
        update_infected_def Let_def self_recovery_def
        split: sum.splits prod.splits if_splits)

lemma update_agent_draws:
  assumes "update_agent gl v ns rs k = Inr (w, k')"
  shows "k' = (if state v = LATENT then k else Suc k)"
  using assms
  by (cases "state v")
     (auto simp: update_agent_healthy update_agent_latent update_agent_infected
        update_infected_def Let_def self_recovery_def s_2_l_def
        split: sum.splits prod.splits if_splits)

lemma s_2_l_positive_draw:
  assumes "state v = SUSCEPTIBLE \<or> state v = RECOVERED"
    and "filter (\<lambda>n. state n = INFECTED) ns = []"
    and "infectivity_offset v \<noteq> 0"
    and "0 < rs k"
  shows "update_agent gl v ns rs k = Inr (v\<lparr>state_next := Some (state v)\<rparr>, Suc k)"
  using assms by (auto simp: update_agent_healthy s_2_l_def Let_def)


text \<open>
  An infected agent that does not recover: the rule of \<^verbatim>\<open>manual_removal\<close>, the raise
  included. Division by zero is the only error of an update.
\<close>

lemma update_agent_treated:
  assumes "state v = INFECTED"
    and "\<not> fst (self_recovery gl (v\<lparr>latency_counter := 0\<rparr>) ns rs k)"
  shows "update_agent gl v ns rs k =
           (if 0 < model_generation gl \<and> removal_threshold gl = 0
            then Inl ZeroDivisionError
            else Inr (v\<lparr>latency_counter := 0,
                        state_next := Some (if 0 < model_generation gl
                                               \<and> removal_threshold gl dvd model_generation gl
                                            then initial_state v else INFECTED)\<rparr>, Suc k))"
  using assms
  by (auto simp: update_agent_infected update_infected_def self_recovery_def
        manual_removal_def Let_def dvd_eq_mod_eq_0)

lemma manual_removal_fires:
  "manual_removal gl v ns = Inr True
     \<longleftrightarrow> 0 < model_generation gl \<and> removal_threshold gl dvd model_generation gl"
  by (auto simp: manual_removal_def dvd_eq_mod_eq_0)

lemma update_agent_error:
  "update_agent gl v ns rs k = Inl e \<Longrightarrow> e = ZeroDivisionError"
  by (cases "state v")
     (auto simp: update_agent_healthy update_agent_latent update_agent_infected
        update_infected_def Let_def self_recovery_def s_2_l_def manual_removal_def
        split: sum.splits prod.splits if_splits)

text \<open>The update of an agent raises nothing when the module variables are sound.\<close>

lemma update_agent_returns:
  assumes "0 \<le> default_infectivity gl"
    and "0 < infectivity_offset v"
    and "removal_threshold gl \<noteq> 0"
  shows "\<exists>w k'. update_agent gl v ns rs k = Inr (w, k')"
proof (cases "state v")
  case SUSCEPTIBLE
  have "0 \<le> default_infectivity gl * int (length (filter (\<lambda>n. state n = INFECTED) ns))"
    using assms(1) by simp
  then show ?thesis using SUSCEPTIBLE assms(2)
    by (simp add: update_agent_healthy s_2_l_def Let_def)
next
  case LATENT
  then show ?thesis by (simp add: update_agent_latent)
next
  case INFECTED
  then show ?thesis using assms(3)
    by (simp add: update_agent_infected update_infected_def self_recovery_def
          manual_removal_def Let_def)
next
  case RECOVERED
  have "0 \<le> default_infectivity gl * int (length (filter (\<lambda>n. state n = INFECTED) ns))"
    using assms(1) by simp
  then show ?thesis using RECOVERED assms(2)
    by (simp add: update_agent_healthy s_2_l_def Let_def)
qed

section \<open>The first loop of a step reads the state before the step only\<close>

lemma synchronous_next_cong:
  assumes "\<forall>j \<in> set todo. s1 ! j = s2 ! j" and "\<forall>j. state (s1 ! j) = state (s2 ! j)"
  shows "synchronous_next gl nb rs s1 todo k = synchronous_next gl nb rs s2 todo k"
  using assms(1)
proof (induction todo arbitrary: k)
  case Nil
  then show ?case by simp
next
  case (Cons i todo)
  have "map state (map (\<lambda>j. s1 ! j) (nb i)) = map state (map (\<lambda>j. s2 ! j) (nb i))"
    using assms(2) by simp
  then have "update_agent gl (s1 ! i) (map (\<lambda>j. s1 ! j) (nb i)) rs k
           = update_agent gl (s2 ! i) (map (\<lambda>j. s2 ! j) (nb i)) rs k"
    using Cons.prems update_agent_cong by fastforce
  moreover have "\<And>k'. synchronous_next gl nb rs s1 todo k' = synchronous_next gl nb rs s2 todo k'"
    using Cons by simp
  ultimately show ?case by (simp split: sum.splits prod.splits)
qed

lemma compute_next_append:
  "compute_next gl nb rs [length pre..<length pre + length post] (pre @ post) k =
     (case synchronous_next gl nb rs (pre @ post) [length pre..<length pre + length post] k of
        Inl e \<Rightarrow> Inl e
      | Inr (ws, k') \<Rightarrow> Inr (pre @ ws, k'))"
proof (induction post arbitrary: pre k)
  case Nil
  then show ?case by simp
next
  case (Cons v post)
  let ?s = "pre @ v # post"
  have "[length pre..<length pre + length (v # post)]
          = length pre # [Suc (length pre)..<length pre + length (v # post)]"
    by (rule upt_conv_Cons) simp
  then have upt: "[length pre..<length pre + length (v # post)]
               = length pre # [length (pre @ [v])..<length (pre @ [v]) + length post]"
    by simp
  have nth: "?s ! length pre = v" by simp
  show ?case
  proof (cases "update_agent gl v (map (\<lambda>j. ?s ! j) (nb (length pre))) rs k")
    case (Inl e)
    then show ?thesis unfolding upt by (simp del: upt_Suc)
  next
    case (Inr r)
    obtain w k1 where r: "r = (w, k1)" by (cases r)
    have st: "state w = state v" using Inr r update_agent_state by blast
    have upd: "?s[length pre := w] = (pre @ [w]) @ post" by simp
    have same: "\<forall>j \<in> set [length (pre @ [v])..<length (pre @ [v]) + length post].
                  ((pre @ [w]) @ post) ! j = ?s ! j"
      by (auto simp: nth_append nth_Cons')
    have states: "\<forall>j. state (((pre @ [w]) @ post) ! j) = state (?s ! j)"
    proof
      fix j
      show "state (((pre @ [w]) @ post) ! j) = state (?s ! j)"
        using st by (cases "j = length pre") (auto simp: nth_append nth_Cons')
    qed
    have cong: "\<And>k'. synchronous_next gl nb rs ((pre @ [w]) @ post)
                     [length (pre @ [v])..<length (pre @ [v]) + length post] k'
                 = synchronous_next gl nb rs ?s
                     [length (pre @ [v])..<length (pre @ [v]) + length post] k'"
      using synchronous_next_cong [OF same states] .
    have ih: "compute_next gl nb rs [length (pre @ [w])..<length (pre @ [w]) + length post]
                ((pre @ [w]) @ post) k1 =
              (case synchronous_next gl nb rs ((pre @ [w]) @ post)
                      [length (pre @ [w])..<length (pre @ [w]) + length post] k1 of
                 Inl e \<Rightarrow> Inl e
               | Inr (ws, k') \<Rightarrow> Inr ((pre @ [w]) @ ws, k'))"
      using Cons.IH [of "pre @ [w]" k1] .
    have len: "length (pre @ [w]) = length (pre @ [v])" by simp
    show ?thesis
      unfolding upt
      using Inr r ih cong
      by (simp del: upt_Suc add: nth upd len split: sum.splits prod.splits)
  qed
qed

lemma compute_next_synchronous:
  "compute_next gl nb rs [0..<length store] store k
     = synchronous_next gl nb rs store [0..<length store] k"
  using compute_next_append [of gl nb rs "[]" store k]
  by (simp split: sum.splits prod.splits)

lemma synchronous_next_length:
  "synchronous_next gl nb rs s todo k = Inr (ws, k') \<Longrightarrow> length ws = length todo"
  by (induction todo arbitrary: k ws) (auto split: sum.splits prod.splits)

lemma synchronous_next_nth:
  assumes "synchronous_next gl nb rs s todo k = Inr (ws, k')" and "n < length todo"
  shows "\<exists>ka kb. update_agent gl (s ! (todo ! n)) (map (\<lambda>j. s ! j) (nb (todo ! n))) rs ka
                   = Inr (ws ! n, kb)"
  using assms
proof (induction todo arbitrary: k ws n)
  case Nil
  then show ?case by simp
next
  case (Cons i todo)
  from Cons.prems(1) obtain w k1 ws' where
    upd: "update_agent gl (s ! i) (map (\<lambda>j. s ! j) (nb i)) rs k = Inr (w, k1)" and
    rest: "synchronous_next gl nb rs s todo k1 = Inr (ws', k')" and
    ws: "ws = w # ws'"
    by (auto split: sum.splits prod.splits)
  show ?case
  proof (cases n)
    case 0
    then show ?thesis using upd ws by auto
  next
    case (Suc n')
    then have "n' < length todo" using Cons.prems(2) by simp
    from Cons.IH [OF rest this] show ?thesis using Suc ws by simp
  qed
qed

lemma commit_all_committed:
  assumes "\<forall>w \<in> set ws. state_next w \<noteq> None"
  shows "\<exists>vs. commit_all ws = Inr vs \<and> length vs = length ws \<and>
              (\<forall>n < length ws. commit (ws ! n) = Inr (vs ! n))"
  using assms
proof (induction ws)
  case Nil
  then show ?case by simp
next
  case (Cons w ws)
  then obtain vs where vs: "commit_all ws = Inr vs" "length vs = length ws"
      "\<forall>n < length ws. commit (ws ! n) = Inr (vs ! n)"
    by auto
  from Cons.prems obtain s where s: "state_next w = Some s" by auto
  have "commit w = Inr (w\<lparr>state := s\<rparr>)" using s by (simp add: commit_def)
  then show ?case using vs by (auto simp: nth_Cons')
qed

lemma step_agent:
  assumes "step gl m rs k = Inr (gl', m', k')" and "i < length (agents m)"
  shows "length (agents m') = length (agents m)"
    and "\<exists>w ka kb. update_agent gl (agents m ! i)
                        (map (\<lambda>j. agents m ! j) (vineyard_neighbors (positions m) i)) rs ka
                      = Inr (w, kb)
                    \<and> commit w = Inr (agents m' ! i)"
proof -
  let ?nb = "vineyard_neighbors (positions m)"
  let ?todo = "[0..<length (agents m)]"
  from assms(1) obtain computed committed where
    comp: "compute_next gl ?nb rs ?todo (agents m) k = Inr (computed, k')" and
    comm: "commit_all computed = Inr committed" and
    ag: "agents m' = committed"
    by (auto simp: step_def Let_def split: sum.splits prod.splits if_splits)
  have sync: "synchronous_next gl ?nb rs (agents m) ?todo k = Inr (computed, k')"
    using comp by (simp add: compute_next_synchronous)
  have len: "length computed = length (agents m)"
    using synchronous_next_length [OF sync] by simp
  have nth: "\<And>n. n < length (agents m) \<Longrightarrow>
               \<exists>ka kb. update_agent gl (agents m ! n) (map (\<lambda>j. agents m ! j) (?nb n)) rs ka
                        = Inr (computed ! n, kb)"
    using synchronous_next_nth [OF sync] by simp
  have "\<forall>w \<in> set computed. state_next w \<noteq> None"
  proof
    fix w assume "w \<in> set computed"
    then obtain n where "n < length computed" "w = computed ! n"
      by (auto simp: in_set_conv_nth)
    then show "state_next w \<noteq> None"
      using nth [of n] len update_agent_state_next by auto
  qed
  from commit_all_committed [OF this] comm
  have c: "length committed = length computed"
          "\<forall>n < length computed. commit (computed ! n) = Inr (committed ! n)"
    by auto
  show "length (agents m') = length (agents m)" using c len ag by simp
  show "\<exists>w ka kb. update_agent gl (agents m ! i) (map (\<lambda>j. agents m ! j) (?nb i)) rs ka
                      = Inr (w, kb) \<and> commit w = Inr (agents m' ! i)"
    using nth [OF assms(2)] c len ag assms(2) by auto
qed

lemma synchronous_next_states:
  assumes "synchronous_next gl nb rs s [0..<length s] k = Inr (ws, k')"
  shows "map state ws = map state s"
proof (rule nth_equalityI)
  show len: "length (map state ws) = length (map state s)"
    using synchronous_next_length [OF assms] by simp
  fix n assume "n < length (map state ws)"
  then have n: "n < length s" using len by simp
  then obtain ka kb where
    "update_agent gl (s ! n) (map (\<lambda>j. s ! j) (nb n)) rs ka = Inr (ws ! n, kb)"
    using synchronous_next_nth [OF assms, of n] by auto
  then have "state (ws ! n) = state (s ! n)" by (rule update_agent_state)
  then show "map state ws ! n = map state s ! n"
    using n synchronous_next_length [OF assms] by simp
qed

lemma synchronous_next_written:
  assumes "synchronous_next gl nb rs s todo k = Inr (ws, k')"
  shows "\<forall>w \<in> set ws. state_next w \<noteq> None"
proof
  fix w assume "w \<in> set ws"
  then obtain n where n: "n < length ws" "w = ws ! n" by (auto simp: in_set_conv_nth)
  then have "n < length todo" using synchronous_next_length [OF assms] by simp
  from synchronous_next_nth [OF assms this] n show "state_next w \<noteq> None"
    using update_agent_state_next by auto
qed

lemma commit_state: "commit w = Inr v \<Longrightarrow> Some (state v) = state_next w"
  by (auto simp: commit_def split: option.splits)

lemma commit_counter: "commit w = Inr v \<Longrightarrow> latency_counter v = latency_counter w"
  by (auto simp: commit_def split: option.splits)

lemma commit_duration: "commit w = Inr v \<Longrightarrow> latency_duration v = latency_duration w"
  by (auto simp: commit_def split: option.splits)


text \<open>
  The errors of a step, and the draw at which an agent is updated in a step.
\<close>

lemma synchronous_next_error:
  "synchronous_next gl nb rs s todo k = Inl e \<Longrightarrow> e = ZeroDivisionError"
proof (induction todo arbitrary: k)
  case Nil
  then show ?case by simp
next
  case (Cons i todo)
  then show ?case
    by (auto split: sum.splits prod.splits dest: update_agent_error)
qed

lemma step_error:
  assumes "step gl m rs k = Inl e"
  shows "e = ZeroDivisionError"
proof -
  let ?nb = "vineyard_neighbors (positions m)"
  let ?todo = "[0..<length (agents m)]"
  show ?thesis
  proof (cases "synchronous_next gl ?nb rs (agents m) ?todo k")
    case (Inl e')
    then have "e' = ZeroDivisionError" by (rule synchronous_next_error)
    moreover have "step gl m rs k = Inl e'"
      using Inl by (simp add: step_def compute_next_synchronous)
    ultimately show ?thesis using assms by simp
  next
    case (Inr r)
    obtain ws k' where r: "r = (ws, k')" by (cases r)
    from commit_all_committed [OF synchronous_next_written [OF Inr [unfolded r]]]
    obtain vs where "commit_all ws = Inr vs" by blast
    then have "\<exists>x. step gl m rs k = Inr x"
      using Inr r by (simp add: step_def compute_next_synchronous Let_def)
    then show ?thesis using assms by auto
  qed
qed

lemma synchronous_next_nth_draw:
  assumes "synchronous_next gl nb rs s todo k = Inr (ws, k')" and "n < length todo"
  shows "update_agent gl (s ! (todo ! n)) (map (\<lambda>j. s ! j) (nb (todo ! n))) rs
           (k + length (filter (\<lambda>j. state (s ! j) \<noteq> LATENT) (take n todo)))
           = Inr (ws ! n,
                  k + length (filter (\<lambda>j. state (s ! j) \<noteq> LATENT) (take (Suc n) todo)))"
  using assms
proof (induction todo arbitrary: k ws n)
  case Nil
  then show ?case by simp
next
  case (Cons i todo)
  from Cons.prems(1) obtain w k1 ws' where
    upd: "update_agent gl (s ! i) (map (\<lambda>j. s ! j) (nb i)) rs k = Inr (w, k1)" and
    rest: "synchronous_next gl nb rs s todo k1 = Inr (ws', k')" and
    ws: "ws = w # ws'"
    by (auto split: sum.splits prod.splits)
  have k1: "k1 = (if state (s ! i) = LATENT then k else Suc k)"
    using upd by (rule update_agent_draws)
  show ?case
  proof (cases n)
    case 0
    then show ?thesis using upd ws k1 by simp
  next
    case (Suc n')
    then have "n' < length todo" using Cons.prems(2) by simp
    from Cons.IH [OF rest this] show ?thesis using Suc ws k1
      by (cases "state (s ! i) = LATENT") simp_all
  qed
qed

lemma step_agent_draw:
  assumes "step gl m rs k = Inr (gl', m', k')" and "i < length (agents m)"
  shows "\<exists>w kb. update_agent gl (agents m ! i)
                    (map (\<lambda>j. agents m ! j) (vineyard_neighbors (positions m) i)) rs
                    (k + draws_before (agents m) i)
                  = Inr (w, kb)
               \<and> commit w = Inr (agents m' ! i)"
proof -
  let ?nb = "vineyard_neighbors (positions m)"
  let ?todo = "[0..<length (agents m)]"
  from assms(1) obtain computed where
    comp: "compute_next gl ?nb rs ?todo (agents m) k = Inr (computed, k')" and
    comm: "commit_all computed = Inr (agents m')"
    by (auto simp: step_def Let_def split: sum.splits prod.splits if_splits)
  have sync: "synchronous_next gl ?nb rs (agents m) ?todo k = Inr (computed, k')"
    using comp by (simp add: compute_next_synchronous)
  have len: "length computed = length (agents m)"
    using synchronous_next_length [OF sync] by simp
  have tk: "take i ?todo = [0..<i]" using assms(2) by (simp add: take_upt)
  have "update_agent gl (agents m ! i) (map (\<lambda>j. agents m ! j) (?nb i)) rs
          (k + draws_before (agents m) i)
          = Inr (computed ! i,
                 k + length (filter (\<lambda>j. state (agents m ! j) \<noteq> LATENT) (take (Suc i) ?todo)))"
    using synchronous_next_nth_draw [OF sync, of i] assms(2) tk
    by (simp add: draws_before_def del: upt_Suc take_Suc)
  moreover from commit_all_committed [OF synchronous_next_written [OF sync]] comm
  have "commit (computed ! i) = Inr (agents m' ! i)"
    using assms(2) len by auto
  ultimately show ?thesis by blast
qed

lemma commit_state_next: "commit w = Inr v \<Longrightarrow> state_next v = state_next w"
  by (auto simp: commit_def split: option.splits)

text \<open>Hence a step returns.\<close>

lemma synchronous_next_returns:
  assumes "0 \<le> default_infectivity gl"
    and "\<forall>i \<in> set todo. 0 < infectivity_offset (s ! i)"
    and "removal_threshold gl \<noteq> 0"
  shows "\<exists>ws k'. synchronous_next gl nb rs s todo k = Inr (ws, k')"
  using assms(2)
proof (induction todo arbitrary: k)
  case Nil
  then show ?case by simp
next
  case (Cons i todo)
  then have "0 < infectivity_offset (s ! i)" by simp
  from update_agent_returns [OF assms(1) this assms(3)] obtain w k1 where
    "update_agent gl (s ! i) (map (\<lambda>j. s ! j) (nb i)) rs k = Inr (w, k1)" by blast
  moreover obtain ws k2 where "synchronous_next gl nb rs s todo k1 = Inr (ws, k2)"
    using Cons by fastforce
  ultimately show ?case by simp
qed

lemma step_returns:
  assumes "0 \<le> default_infectivity gl"
    and "\<forall>v \<in> set (agents m). 0 < infectivity_offset v"
    and "removal_threshold gl \<noteq> 0"
  shows "\<exists>gl' m' k'. step gl m rs k = Inr (gl', m', k')"
proof -
  let ?nb = "vineyard_neighbors (positions m)"
  let ?todo = "[0..<length (agents m)]"
  have "\<forall>i \<in> set ?todo. 0 < infectivity_offset (agents m ! i)"
    using assms(2) by simp
  from synchronous_next_returns [OF assms(1) this assms(3)] obtain ws k' where
    sync: "synchronous_next gl ?nb rs (agents m) ?todo k = Inr (ws, k')" by blast
  then have comp: "compute_next gl ?nb rs ?todo (agents m) k = Inr (ws, k')"
    by (simp add: compute_next_synchronous)
  from commit_all_committed [OF synchronous_next_written [OF sync]] obtain vs where
    "commit_all ws = Inr vs" by blast
  with comp show ?thesis by (simp add: step_def Let_def)
qed

section \<open>Properties of the initialisation\<close>

lemma set_latent_length: "length (set_latent sel store) = length store"
  by (induction sel arbitrary: store) auto

lemma set_latent_nth:
  "i < length store \<Longrightarrow>
   set_latent sel store ! i = (if i \<in> set sel then (store ! i)\<lparr>state := LATENT\<rparr> else store ! i)"
proof (induction sel arbitrary: store)
  case Nil
  then show ?case by simp
next
  case (Cons a sel)
  then show ?case by (cases "i = a") (auto simp: nth_list_update)
qed

lemma set_up_attributes_nth:
  assumes "set_up_agent_variable_attributes gl ps zs n = Inr vines"
  shows "length vines = length ps \<and>
         (\<forall>i < length ps. set_up_agent gl (ps ! i) (zs (n + i)) = Inr (vines ! i))"
  using assms
proof (induction ps arbitrary: n vines)
  case Nil
  then show ?case by simp
next
  case (Cons pos ps)
  from Cons.prems obtain a as where
    a: "set_up_agent gl pos (zs n) = Inr a" and
    as: "set_up_agent_variable_attributes gl ps zs (Suc n) = Inr as" and
    v: "vines = a # as"
    by (auto split: sum.splits)
  from Cons.IH [OF as] have ih: "length as = length ps"
    "\<forall>i < length ps. set_up_agent gl (ps ! i) (zs (Suc n + i)) = Inr (as ! i)" by auto
  show ?case
  proof (intro conjI allI impI)
    show "length vines = length (pos # ps)" using v ih by simp
  next
    fix i assume "i < length (pos # ps)"
    then show "set_up_agent gl ((pos # ps) ! i) (zs (n + i)) = Inr (vines ! i)"
      using a ih v by (cases i) auto
  qed
qed

lemma set_up_agent_ok:
  assumes "intercropping_distance gl + intercropping_row_count gl \<noteq> 0"
  shows "\<exists>a. set_up_agent gl pos z = Inr a"
  using assms by (simp add: set_up_agent_def is_intercropped_resistant_cultivar_def Let_def)

lemma set_up_attributes_ok:
  assumes "intercropping_distance gl + intercropping_row_count gl \<noteq> 0"
  shows "\<exists>vines. set_up_agent_variable_attributes gl ps zs n = Inr vines"
proof (induction ps arbitrary: n)
  case Nil
  then show ?case by simp
next
  case (Cons pos ps)
  obtain a where "set_up_agent gl pos (zs n) = Inr a"
    using set_up_agent_ok [OF assms] by blast
  moreover obtain vines where "set_up_agent_variable_attributes gl ps zs (Suc n) = Inr vines"
    using Cons by blast
  ultimately show ?case by simp
qed

lemma grid_positions_length: "0 \<le> n \<Longrightarrow> int (length (grid_positions n)) = n * n"
  by (simp add: grid_positions_def)

lemma model_setup_agents:
  assumes "model_setup gl params zs sel = Inr m"
  shows "\<exists>vines chosen.
           set_up_agent_variable_attributes gl (grid_positions (size' params)) zs 0 = Inr vines
         \<and> agents_random (length vines) (initial_infection_count params) sel = Inr chosen
         \<and> agents m = set_latent chosen vines
         \<and> positions m = grid_positions (size' params)
         \<and> length vines = length (grid_positions (size' params))"
proof -
  from assms obtain vines chosen where
    v: "set_up_agent_variable_attributes gl (grid_positions (size' params)) zs 0 = Inr vines" and
    c: "agents_random (length vines) (initial_infection_count params) sel = Inr chosen" and
    m: "m = \<lparr>p = params, t = 0, running = True, agents = set_latent chosen vines,
              positions = grid_positions (size' params)\<rparr>"
    by (auto simp: model_setup_def Let_def split: sum.splits if_splits)
  from set_up_attributes_nth [OF v] have "length vines = length (grid_positions (size' params))"
    by simp
  with v c m show ?thesis by simp
qed

lemma set_up_agent_fields:
  assumes "set_up_agent gl position z = Inr a"
  shows "intercropping_distance gl + intercropping_row_count gl \<noteq> 0"
    and "initial_state a =
           (if fst position mod (intercropping_distance gl + intercropping_row_count gl)
                 \<ge> intercropping_distance gl
            then RECOVERED else SUSCEPTIBLE)"
    and "infectivity_offset a =
           (if fst position mod (intercropping_distance gl + intercropping_row_count gl)
                 \<ge> intercropping_distance gl
            then resistant_infectivity_offset gl else default_infectivity_offset gl)"
    and "state a = initial_state a"
    and "state_next a = None"
    and "latency_counter a = 0"
    and "latency_duration a = of_int (default_latency_duration gl) + z * 2"
  using assms
  by (auto simp: set_up_agent_def is_intercropped_resistant_cultivar_def random_gauss_def
        Let_def split: if_splits)


section \<open>Properties of the run loop\<close>

text \<open>
  \<^verbatim>\<open>step\<close> stores \<open>t\<close> in \<^verbatim>\<open>model_generation\<close> once the agents are committed, and
  the loop advances \<open>t\<close> before it calls \<^verbatim>\<open>step\<close>: while a step is computed,
  \<^verbatim>\<open>model_generation\<close> is the number of the steps completed before it.
\<close>

lemma step_counter:
  assumes "step gl m rs k = Inr (gl', m', k')"
  shows "gl' = gl\<lparr>model_generation := t m\<rparr>" and "t m' = t m" and "p m' = p m"
    and "positions m' = positions m"
  using assms
  by (auto simp: step_def Let_def split: sum.splits prod.splits if_splits)

lemma sim_step_counter:
  assumes "sim_step gl m rs k = Inr (gl', m', k')"
  shows "gl' = gl\<lparr>model_generation := t m + 1\<rparr>" and "t m' = t m + 1"
proof -
  from assms obtain m1 where
    s: "step gl (m\<lparr>t := t m + 1\<rparr>) rs k = Inr (gl', m1, k')" and
    m': "m' = (if t m1 \<ge> steps (p m1) then m1\<lparr>running := False\<rparr> else m1)"
    by (auto simp: sim_step_def split: sum.splits prod.splits)
  show "gl' = gl\<lparr>model_generation := t m + 1\<rparr>" using step_counter(1) [OF s] by simp
  show "t m' = t m + 1" using step_counter(2) [OF s] m' by simp
qed

text \<open>
  In a run that starts with \<^verbatim>\<open>model_generation\<close> equal to \<open>t\<close>, the two stay
  equal after every iteration of the loop; and while the loop is still running, \<open>t\<close> is
  the number of iterations made.
\<close>

lemma sim_run_counter:
  assumes "sim_run n gl m rs k = Inr (gl', m', k')" and "model_generation gl = t m"
  shows "model_generation gl' = t m'"
  using assms
proof (induction n arbitrary: gl m k)
  case 0
  then show ?case by simp
next
  case (Suc n)
  show ?case
  proof (cases "running m")
    case True
    with Suc.prems(1) obtain gl1 m1 k1 where
      s: "sim_step gl m rs k = Inr (gl1, m1, k1)" and
      r: "sim_run n gl1 m1 rs k1 = Inr (gl', m', k')"
      by (auto split: sum.splits prod.splits)
    have "model_generation gl1 = t m1"
      using sim_step_counter [OF s] by simp
    from Suc.IH [OF r this] show ?thesis .
  next
    case False
    then show ?thesis using Suc.prems by simp
  qed
qed

lemma sim_run_globals:
  assumes "sim_run n gl m rs k = Inr (gl', m', k')"
  shows "gl' = gl\<lparr>model_generation := model_generation gl'\<rparr>"
  using assms
proof (induction n arbitrary: gl m k)
  case 0
  then show ?case by simp
next
  case (Suc n)
  show ?case
  proof (cases "running m")
    case True
    with Suc.prems obtain gl1 m1 k1 where
      s: "sim_step gl m rs k = Inr (gl1, m1, k1)" and
      r: "sim_run n gl1 m1 rs k1 = Inr (gl', m', k')"
      by (auto split: sum.splits prod.splits)
    have "gl' = gl1\<lparr>model_generation := model_generation gl'\<rparr>"
      using Suc.IH [OF r] .
    then show ?thesis using sim_step_counter(1) [OF s] by simp
  next
    case False
    then show ?thesis using Suc.prems by simp
  qed
qed

lemma sim_run_steps:
  assumes "sim_run n gl m rs k = Inr (gl', m', k')" and "running m'"
  shows "t m' = t m + int n"
  using assms
proof (induction n arbitrary: gl m k)
  case 0
  then show ?case by simp
next
  case (Suc n)
  show ?case
  proof (cases "running m")
    case True
    with Suc.prems(1) obtain gl1 m1 k1 where
      s: "sim_step gl m rs k = Inr (gl1, m1, k1)" and
      r: "sim_run n gl1 m1 rs k1 = Inr (gl', m', k')"
      by (auto split: sum.splits prod.splits)
    have "t m1 = t m + 1" using sim_step_counter(2) [OF s] .
    with Suc.IH [OF r Suc.prems(2)] show ?thesis by simp
  next
    case False
    then show ?thesis using Suc.prems by simp
  qed
qed

lemma model_setup_t: "model_setup gl params zs sel = Inr m \<Longrightarrow> t m = 0"
  by (auto simp: model_setup_def Let_def split: sum.splits if_splits)

text \<open>The stopping condition of \<^verbatim>\<open>step\<close>, and a stopped loop.\<close>

lemma step_stops_without_active_agent:
  assumes "step gl m rs k = Inr (gl', m', k')"
    and "length (filter (\<lambda>v. state v = LATENT) (agents m'))
           + length (filter (\<lambda>v. state v = INFECTED) (agents m')) = 0"
  shows "\<not> running m'"
  using assms
  by (auto simp: step_def Let_def split: sum.splits prod.splits if_splits)

lemma sim_step_stops_without_active_agent:
  assumes "sim_step gl m rs k = Inr (gl', m', k')"
    and "length (filter (\<lambda>v. state v = LATENT) (agents m'))
           + length (filter (\<lambda>v. state v = INFECTED) (agents m')) = 0"
  shows "\<not> running m'"
proof -
  from assms(1) obtain m1 where
    s: "step gl (m\<lparr>t := t m + 1\<rparr>) rs k = Inr (gl', m1, k')" and
    m': "m' = (if t m1 \<ge> steps (p m1) then m1\<lparr>running := False\<rparr> else m1)"
    by (auto simp: sim_step_def split: sum.splits prod.splits)
  have "agents m1 = agents m'" using m' by simp
  then have "\<not> running m1" using step_stops_without_active_agent [OF s] assms(2) by simp
  then show ?thesis using m' by simp
qed

lemma sim_run_stopped: "\<not> running m \<Longrightarrow> sim_run n gl m rs k = Inr (gl, m, k)"
  by (cases n) simp_all


section \<open>Claims about a generation\<close>

text \<open>
  Claim C1. In every generation the next state of each agent is computed from the
  states that the agent and its neighbours had before the step: the first loop of
  \<^verbatim>\<open>step\<close>, which updates the agents in place one after the other, returns what
  \<open>synchronous_next\<close> computes from the store as it was before the step; it changes no
  agent's \<open>state\<close>; and the second loop, run after all agents have been processed, sets
  the \<open>state\<close> of every agent to its \<open>state_next\<close>.
\<close>

theorem step_synchronous:
  assumes "step gl m rs k = Inr (gl', m', k')"
  shows "\<exists>computed.
           compute_next gl (vineyard_neighbors (positions m)) rs
             [0..<length (agents m)] (agents m) k = Inr (computed, k')
         \<and> synchronous_next gl (vineyard_neighbors (positions m)) rs (agents m)
             [0..<length (agents m)] k = Inr (computed, k')
         \<and> map state computed = map state (agents m)
         \<and> commit_all computed = Inr (agents m')
         \<and> map (\<lambda>v. Some (state v)) (agents m') = map state_next computed"
proof -
  let ?nb = "vineyard_neighbors (positions m)"
  let ?todo = "[0..<length (agents m)]"
  from assms obtain computed where
    comp: "compute_next gl ?nb rs ?todo (agents m) k = Inr (computed, k')" and
    comm: "commit_all computed = Inr (agents m')"
    by (auto simp: step_def Let_def split: sum.splits prod.splits if_splits)
  have sync: "synchronous_next gl ?nb rs (agents m) ?todo k = Inr (computed, k')"
    using comp by (simp add: compute_next_synchronous)
  have states: "map state computed = map state (agents m)"
    using synchronous_next_states [OF sync] .
  from commit_all_committed [OF synchronous_next_written [OF sync]] comm
  have c: "length (agents m') = length computed"
          "\<forall>n < length computed. commit (computed ! n) = Inr (agents m' ! n)"
    by auto
  have "map (\<lambda>v. Some (state v)) (agents m') = map state_next computed"
    by (rule nth_equalityI) (use c commit_state in auto)
  with comp sync states comm show ?thesis by blast
qed

text \<open>
  In the sample below the generation counter is 10. The first agent is infected and is
  treated, so its \<open>state_next\<close> is already \<open>SUSCEPTIBLE\<close> when its two healthy neighbours
  are visited; they still count it as infected and become latent (the draw \<open>1/2\<close> is at
  most \<open>10 / (10 + 10)\<close>).
\<close>

theorem step_synchronous_witness:
  "step (notebook_globals\<lparr>model_generation := 10\<rparr>) treated_model half_draws 0
     = Inr (notebook_globals\<lparr>model_generation := 11\<rparr>,
            treated_model\<lparr>agents :=
              [infected_vine\<lparr>state := SUSCEPTIBLE, state_next := Some SUSCEPTIBLE\<rparr>,
               susceptible_vine\<lparr>state := LATENT, state_next := Some LATENT\<rparr>,
               susceptible_vine\<lparr>state := LATENT, state_next := Some LATENT\<rparr>,
               latent_vine\<lparr>state := INFECTED, state_next := Some INFECTED,
                 latency_counter := 1\<rparr>]\<rparr>,
            3)
   \<and> (\<exists>computed.
         synchronous_next (notebook_globals\<lparr>model_generation := 10\<rparr>)
           (vineyard_neighbors (positions treated_model)) half_draws (agents treated_model)
           [0..<length (agents treated_model)] 0 = Inr (computed, 3)
       \<and> map state computed = [INFECTED, SUSCEPTIBLE, SUSCEPTIBLE, LATENT]
       \<and> map state_next computed
           = [Some SUSCEPTIBLE, Some LATENT, Some LATENT, Some INFECTED])"
proof -
  have run: "step (notebook_globals\<lparr>model_generation := 10\<rparr>) treated_model half_draws 0
     = Inr (notebook_globals\<lparr>model_generation := 11\<rparr>,
            treated_model\<lparr>agents :=
              [infected_vine\<lparr>state := SUSCEPTIBLE, state_next := Some SUSCEPTIBLE\<rparr>,
               susceptible_vine\<lparr>state := LATENT, state_next := Some LATENT\<rparr>,
               susceptible_vine\<lparr>state := LATENT, state_next := Some LATENT\<rparr>,
               latent_vine\<lparr>state := INFECTED, state_next := Some INFECTED,
                 latency_counter := 1\<rparr>]\<rparr>,
            3)"
    by code_simp
  have before: "map state (agents treated_model) = [INFECTED, SUSCEPTIBLE, SUSCEPTIBLE, LATENT]"
    by code_simp
  from step_synchronous [OF run] obtain computed where
    c: "synchronous_next (notebook_globals\<lparr>model_generation := 10\<rparr>)
           (vineyard_neighbors (positions treated_model)) half_draws (agents treated_model)
           [0..<length (agents treated_model)] 0 = Inr (computed, 3)"
       "map state computed = map state (agents treated_model)"
       "map (\<lambda>v. Some (state v))
          (agents (treated_model\<lparr>agents :=
              [infected_vine\<lparr>state := SUSCEPTIBLE, state_next := Some SUSCEPTIBLE\<rparr>,
               susceptible_vine\<lparr>state := LATENT, state_next := Some LATENT\<rparr>,
               susceptible_vine\<lparr>state := LATENT, state_next := Some LATENT\<rparr>,
               latent_vine\<lparr>state := INFECTED, state_next := Some INFECTED,
                 latency_counter := 1\<rparr>]\<rparr>)) = map state_next computed"
    by blast
  from c(3) have "map state_next computed
                    = [Some SUSCEPTIBLE, Some LATENT, Some LATENT, Some INFECTED]"
    by simp
  with run c(1) c(2) before show ?thesis by auto
qed

text \<open>
  Claim C2. A susceptible or recovered agent without any infected neighbour keeps its
  state whatever the uniform draw is. The code breaks this at the draw \<open>0.0\<close>, which
  \<^verbatim>\<open>random.random()\<close> can return: \<^verbatim>\<open>prob <= 0 / (0 + offset)\<close> holds there, so a
  susceptible agent next to a recovered and a latent one, and a recovered agent without
  neighbours, both get \<open>state_next = LATENT\<close>. (For every positive draw the claim holds:
  \<open>s_2_l_positive_draw\<close>.)
\<close>

theorem s_2_l_fires_without_infected_neighbor:
  "update_agent notebook_globals susceptible_vine [resistant_vine, latent_vine] zero_draws 0
     = Inr (susceptible_vine\<lparr>state_next := Some LATENT\<rparr>, 1)
   \<and> update_agent notebook_globals resistant_vine [] zero_draws 0
     = Inr (resistant_vine\<lparr>state_next := Some LATENT\<rparr>, 1)"
  by code_simp

text \<open>
  Claim C3. The global generation counter is the module variable
  \<^verbatim>\<open>model_generation\<close>: it is 0 when the notebook is loaded, and \<^verbatim>\<open>step\<close> stores the
  number of the step in it once the agents are committed. So in a run, when \<open>n\<close> steps
  are completed and the next one is computed, the counter that \<^verbatim>\<open>manual_removal\<close> reads
  is \<open>n\<close> (agentpy's own \<open>t\<close> is \<open>n + 1\<close> during that step), and no other module
  variable has changed. For an infected agent on
  which \<^verbatim>\<open>self_recovery\<close> does not fire in that step, \<^verbatim>\<open>manual_removal\<close> fires exactly
  when \<open>n\<close> is a strictly positive multiple of \<^verbatim>\<open>removal_threshold\<close>, and the step then
  sets \<open>state_next\<close>, and with it \<open>state\<close>, to \<open>initial_state\<close>; otherwise the agent stays
  infected. With a threshold of 10 it fires at the counter values 10, 20, 30, ... and at
  none of 11 to 19. With a threshold of 0 it never fires: the step raises once the counter
  is positive.
\<close>

theorem manual_removal_synchrony:
  assumes "model_setup gl0 params zs sel = Inr m0"
    and "model_generation gl0 = 0"
    and "sim_run n gl0 m0 rs k0 = Inr (gl, m, k)"
    and "running m"
    and "i < length (agents m)"
    and "state (agents m ! i) = INFECTED"
    and "\<not> fst (self_recovery gl ((agents m ! i)\<lparr>latency_counter := 0\<rparr>)
                 (map (\<lambda>j. agents m ! j) (vineyard_neighbors (positions m) i)) rs
                 (k + draws_before (agents m) i))"
  shows "gl = gl0\<lparr>model_generation := int n\<rparr> \<and> t m = int n
       \<and> (manual_removal gl ((agents m ! i)\<lparr>latency_counter := 0\<rparr>)
             (map (\<lambda>j. agents m ! j) (vineyard_neighbors (positions m) i)) = Inr True
           \<longleftrightarrow> 0 < n \<and> removal_threshold gl dvd int n)
       \<and> (\<forall>gl' m' k'. sim_step gl m rs k = Inr (gl', m', k') \<longrightarrow>
             t m' = int n + 1 \<and> model_generation gl' = int n + 1
           \<and> state_next (agents m' ! i)
               = Some (if 0 < n \<and> removal_threshold gl dvd int n
                       then initial_state (agents m ! i) else INFECTED)
           \<and> state (agents m' ! i)
               = (if 0 < n \<and> removal_threshold gl dvd int n
                  then initial_state (agents m ! i) else INFECTED))
       \<and> (0 < n \<and> removal_threshold gl = 0 \<longrightarrow>
             sim_step gl m rs k = Inl ZeroDivisionError)
       \<and> (removal_threshold gl = 10 \<longrightarrow>
             (manual_removal gl ((agents m ! i)\<lparr>latency_counter := 0\<rparr>)
                (map (\<lambda>j. agents m ! j) (vineyard_neighbors (positions m) i)) = Inr True
              \<longleftrightarrow> (\<exists>j > 0. n = 10 * j))
           \<and> (n \<in> {11..19} \<longrightarrow>
                manual_removal gl ((agents m ! i)\<lparr>latency_counter := 0\<rparr>)
                  (map (\<lambda>j. agents m ! j) (vineyard_neighbors (positions m) i))
                  = Inr False))"
proof -
  let ?v = "agents m ! i"
  let ?ns = "map (\<lambda>j. agents m ! j) (vineyard_neighbors (positions m) i)"
  let ?fires = "0 < n \<and> removal_threshold gl dvd int n"
  let ?m1 = "m\<lparr>t := t m + 1\<rparr>"
  have t0: "t m0 = 0" using assms(1) by (rule model_setup_t)
  have gen: "model_generation gl = t m"
    using sim_run_counter [OF assms(3)] assms(2) t0 by simp
  have tn: "t m = int n"
    using sim_run_steps [OF assms(3,4)] t0 by simp
  have gn: "model_generation gl = int n" using gen tn by simp
  have only: "gl = gl0\<lparr>model_generation := int n\<rparr>"
    using sim_run_globals [OF assms(3)] gn by simp
  have upd: "update_agent gl ?v ?ns rs (k + draws_before (agents m) i) =
           (if 0 < model_generation gl \<and> removal_threshold gl = 0
            then Inl ZeroDivisionError
            else Inr (?v\<lparr>latency_counter := 0,
                        state_next := Some (if 0 < model_generation gl
                                               \<and> removal_threshold gl dvd model_generation gl
                                            then initial_state ?v else INFECTED)\<rparr>,
                      Suc (k + draws_before (agents m) i)))"
    using update_agent_treated [OF assms(6,7)] .
  have fires: "manual_removal gl (?v\<lparr>latency_counter := 0\<rparr>) ?ns = Inr True \<longleftrightarrow> ?fires"
    using manual_removal_fires [of gl "?v\<lparr>latency_counter := 0\<rparr>" ?ns] gn by simp
  have stepped: "\<forall>gl' m' k'. sim_step gl m rs k = Inr (gl', m', k') \<longrightarrow>
             t m' = int n + 1 \<and> model_generation gl' = int n + 1
           \<and> state_next (agents m' ! i) = Some (if ?fires then initial_state ?v else INFECTED)
           \<and> state (agents m' ! i) = (if ?fires then initial_state ?v else INFECTED)"
  proof (intro allI impI)
    fix gl' m' k'
    assume s: "sim_step gl m rs k = Inr (gl', m', k')"
    then obtain m2 where
      st: "step gl ?m1 rs k = Inr (gl', m2, k')" and
      ag: "agents m' = agents m2"
      by (auto simp: sim_step_def split: sum.splits prod.splits if_splits)
    have i1: "i < length (agents ?m1)" using assms(5) by simp
    from step_agent_draw [OF st i1] obtain w kb where
      u: "update_agent gl ?v ?ns rs (k + draws_before (agents m) i) = Inr (w, kb)" and
      c: "commit w = Inr (agents m2 ! i)"
      by auto
    from u upd gn have
      w: "w = ?v\<lparr>latency_counter := 0,
                   state_next := Some (if ?fires then initial_state ?v else INFECTED)\<rparr>"
      by (auto split: if_splits)
    have nx: "state_next (agents m' ! i) = Some (if ?fires then initial_state ?v else INFECTED)"
      using commit_state_next [OF c] w ag by simp
    have sx: "state (agents m' ! i) = (if ?fires then initial_state ?v else INFECTED)"
      using commit_state [OF c] w ag by simp
    show "t m' = int n + 1 \<and> model_generation gl' = int n + 1
           \<and> state_next (agents m' ! i) = Some (if ?fires then initial_state ?v else INFECTED)
           \<and> state (agents m' ! i) = (if ?fires then initial_state ?v else INFECTED)"
      using sim_step_counter [OF s] tn nx sx by simp
  qed
  have raises: "0 < n \<and> removal_threshold gl = 0 \<longrightarrow> sim_step gl m rs k = Inl ZeroDivisionError"
  proof
    assume z: "0 < n \<and> removal_threshold gl = 0"
    have i1: "i < length (agents ?m1)" using assms(5) by simp
    have "step gl ?m1 rs k = Inl ZeroDivisionError"
    proof (cases "step gl ?m1 rs k")
      case (Inl e)
      then show ?thesis using step_error by blast
    next
      case (Inr r)
      obtain gl' m2 k' where "r = (gl', m2, k')" by (cases r)
      with Inr have st: "step gl ?m1 rs k = Inr (gl', m2, k')" by simp
      from step_agent_draw [OF st i1] obtain w kb where
        "update_agent gl ?v ?ns rs (k + draws_before (agents m) i) = Inr (w, kb)"
        by auto
      with upd gn z show ?thesis by simp
    qed
    then show "sim_step gl m rs k = Inl ZeroDivisionError" by (simp add: sim_step_def)
  qed
  have ten: "removal_threshold gl = 10 \<longrightarrow>
             (manual_removal gl (?v\<lparr>latency_counter := 0\<rparr>) ?ns = Inr True
              \<longleftrightarrow> (\<exists>j > 0. n = 10 * j))
           \<and> (n \<in> {11..19} \<longrightarrow>
                manual_removal gl (?v\<lparr>latency_counter := 0\<rparr>) ?ns = Inr False)"
  proof
    assume th: "removal_threshold gl = 10"
    have a: "(0 < n \<and> (10::int) dvd int n) \<longleftrightarrow> (\<exists>j > 0. n = 10 * j)"
    proof
      assume "0 < n \<and> (10::int) dvd int n"
      then have "0 < n" and "(10::nat) dvd n" by presburger+
      then obtain j where "n = 10 * j" by (auto simp: dvd_def)
      with \<open>0 < n\<close> show "\<exists>j > 0. n = 10 * j" by auto
    next
      assume "\<exists>j > 0. n = 10 * j"
      then show "0 < n \<and> (10::int) dvd int n" by auto
    qed
    have b: "n \<in> {11..19} \<longrightarrow> \<not> (10::int) dvd int n" by auto presburger
    have mr: "manual_removal gl (?v\<lparr>latency_counter := 0\<rparr>) ?ns
                = Inr (model_generation gl mod removal_threshold gl = 0)"
      if "0 < n" using that gn th by (simp add: manual_removal_def)
    show "(manual_removal gl (?v\<lparr>latency_counter := 0\<rparr>) ?ns = Inr True
              \<longleftrightarrow> (\<exists>j > 0. n = 10 * j))
           \<and> (n \<in> {11..19} \<longrightarrow>
                manual_removal gl (?v\<lparr>latency_counter := 0\<rparr>) ?ns = Inr False)"
    proof
      from fires th have "(manual_removal gl (?v\<lparr>latency_counter := 0\<rparr>) ?ns = Inr True)
                 \<longleftrightarrow> (0 < n \<and> (10::int) dvd int n)"
        by simp
      then show "manual_removal gl (?v\<lparr>latency_counter := 0\<rparr>) ?ns = Inr True
               \<longleftrightarrow> (\<exists>j > 0. n = 10 * j)"
        by (simp only: a)
      show "n \<in> {11..19} \<longrightarrow>
               manual_removal gl (?v\<lparr>latency_counter := 0\<rparr>) ?ns = Inr False"
      proof
        assume r: "n \<in> {11..19}"
        then have "0 < n" by simp
        from mr [OF this] b r gn th show
          "manual_removal gl (?v\<lparr>latency_counter := 0\<rparr>) ?ns = Inr False"
          by (simp add: dvd_eq_mod_eq_0)
      qed
    qed
  qed
  from only tn fires stepped raises ten show ?thesis by blast
qed

text \<open>
  Three runs on a single seeded cell, every uniform draw being \<open>1/2\<close>. With the latency
  duration 0 the agent is infected from the first step on: after 10 steps the counter is
  10, and the eleventh step treats the agent. With the latency duration 12 the agent is
  infected after 15 steps, the counter is 15, and the sixteenth step leaves it infected.
  With a removal threshold of 0 the second step raises.
\<close>

theorem manual_removal_synchrony_witness:
  "model_setup notebook_globals seeded_cell low_deviates [0] = Inr seeded_cell_model
   \<and> sim_run 10 notebook_globals seeded_cell_model half_draws 0
       = Inr (notebook_globals\<lparr>model_generation := 10\<rparr>,
              seeded_cell_model\<lparr>t := 10, agents := [infected_vine\<lparr>latency_duration := 0\<rparr>]\<rparr>,
              9)
   \<and> sim_step (notebook_globals\<lparr>model_generation := 10\<rparr>)
        (seeded_cell_model\<lparr>t := 10, agents := [infected_vine\<lparr>latency_duration := 0\<rparr>]\<rparr>)
        half_draws 9
       = Inr (notebook_globals\<lparr>model_generation := 11\<rparr>,
              seeded_cell_model\<lparr>t := 11, running := False,
                agents := [infected_vine\<lparr>latency_duration := 0, state := SUSCEPTIBLE,
                             state_next := Some SUSCEPTIBLE\<rparr>]\<rparr>,
              10)
   \<and> manual_removal (notebook_globals\<lparr>model_generation := 10\<rparr>)
        (infected_vine\<lparr>latency_duration := 0, latency_counter := 0\<rparr>) [] = Inr True
   \<and> state (infected_vine\<lparr>latency_duration := 0, state := SUSCEPTIBLE,
               state_next := Some SUSCEPTIBLE\<rparr>) = initial_state infected_vine
   \<and> model_setup notebook_globals seeded_cell high_deviates [0]
       = Inr (seeded_cell_model\<lparr>agents := [latent_vine\<lparr>latency_duration := 12\<rparr>]\<rparr>)
   \<and> sim_run 15 notebook_globals
        (seeded_cell_model\<lparr>agents := [latent_vine\<lparr>latency_duration := 12\<rparr>]\<rparr>) half_draws 0
       = Inr (notebook_globals\<lparr>model_generation := 15\<rparr>,
              seeded_cell_model\<lparr>t := 15, agents := [infected_vine\<lparr>latency_duration := 12\<rparr>]\<rparr>,
              3)
   \<and> sim_step (notebook_globals\<lparr>model_generation := 15\<rparr>)
        (seeded_cell_model\<lparr>t := 15, agents := [infected_vine\<lparr>latency_duration := 12\<rparr>]\<rparr>)
        half_draws 3
       = Inr (notebook_globals\<lparr>model_generation := 16\<rparr>,
              seeded_cell_model\<lparr>t := 16, agents := [infected_vine\<lparr>latency_duration := 12\<rparr>]\<rparr>,
              4)
   \<and> manual_removal (notebook_globals\<lparr>model_generation := 15\<rparr>)
        (infected_vine\<lparr>latency_duration := 12, latency_counter := 0\<rparr>) [] = Inr False
   \<and> state (infected_vine\<lparr>latency_duration := 12\<rparr>) = INFECTED
   \<and> model_setup (notebook_globals\<lparr>removal_threshold := 0\<rparr>) seeded_cell low_deviates [0]
       = Inr seeded_cell_model
   \<and> sim_run 1 (notebook_globals\<lparr>removal_threshold := 0\<rparr>) seeded_cell_model half_draws 0
       = Inr (notebook_globals\<lparr>removal_threshold := 0, model_generation := 1\<rparr>,
              seeded_cell_model\<lparr>t := 1, agents :=
                [infected_vine\<lparr>latency_duration := 0, latency_counter := 1\<rparr>]\<rparr>,
              0)
   \<and> sim_step (notebook_globals\<lparr>removal_threshold := 0, model_generation := 1\<rparr>)
        (seeded_cell_model\<lparr>t := 1, agents :=
           [infected_vine\<lparr>latency_duration := 0, latency_counter := 1\<rparr>]\<rparr>)
        half_draws 0
       = Inl ZeroDivisionError"
proof -
  let ?g10 = "notebook_globals\<lparr>model_generation := 10\<rparr>"
  let ?m10 = "seeded_cell_model\<lparr>t := 10, agents := [infected_vine\<lparr>latency_duration := 0\<rparr>]\<rparr>"
  let ?g11 = "notebook_globals\<lparr>model_generation := 11\<rparr>"
  let ?m11 = "seeded_cell_model\<lparr>t := 11, running := False,
                agents := [infected_vine\<lparr>latency_duration := 0, state := SUSCEPTIBLE,
                             state_next := Some SUSCEPTIBLE\<rparr>]\<rparr>"
  let ?s12 = "seeded_cell_model\<lparr>agents := [latent_vine\<lparr>latency_duration := 12\<rparr>]\<rparr>"
  let ?g15 = "notebook_globals\<lparr>model_generation := 15\<rparr>"
  let ?m15 = "seeded_cell_model\<lparr>t := 15, agents := [infected_vine\<lparr>latency_duration := 12\<rparr>]\<rparr>"
  let ?g16 = "notebook_globals\<lparr>model_generation := 16\<rparr>"
  let ?m16 = "seeded_cell_model\<lparr>t := 16, agents := [infected_vine\<lparr>latency_duration := 12\<rparr>]\<rparr>"
  let ?z0 = "notebook_globals\<lparr>removal_threshold := 0\<rparr>"
  let ?z1 = "notebook_globals\<lparr>removal_threshold := 0, model_generation := 1\<rparr>"
  let ?m1 = "seeded_cell_model\<lparr>t := 1, agents :=
                [infected_vine\<lparr>latency_duration := 0, latency_counter := 1\<rparr>]\<rparr>"
  have fresh: "model_generation notebook_globals = 0" and fresh0: "model_generation ?z0 = 0"
    by code_simp+
  have su1: "model_setup notebook_globals seeded_cell low_deviates [0] = Inr seeded_cell_model"
    by code_simp
  have run1: "sim_run 10 notebook_globals seeded_cell_model half_draws 0 = Inr (?g10, ?m10, 9)"
    by code_simp
  have st1: "sim_step ?g10 ?m10 half_draws 9 = Inr (?g11, ?m11, 10)"
    by code_simp
  have go1: "running ?m10" and i1: "0 < length (agents ?m10)"
    and inf1: "state (agents ?m10 ! 0) = INFECTED"
    and nr1: "\<not> fst (self_recovery ?g10 ((agents ?m10 ! 0)\<lparr>latency_counter := 0\<rparr>)
                 (map (\<lambda>j. agents ?m10 ! j) (vineyard_neighbors (positions ?m10) 0)) half_draws
                 (9 + draws_before (agents ?m10) 0))"
    and th1: "removal_threshold ?g10 = 10"
    by code_simp+
  note w1 = manual_removal_synchrony [OF su1 fresh run1 go1 i1 inf1 nr1]
  have ns1: "map (\<lambda>j. agents ?m10 ! j) (vineyard_neighbors (positions ?m10) 0) = []"
    and v1: "(agents ?m10 ! 0)\<lparr>latency_counter := 0\<rparr>
               = infected_vine\<lparr>latency_duration := 0, latency_counter := 0\<rparr>"
    and ini1: "initial_state (agents ?m10 ! 0) = initial_state infected_vine"
    by code_simp+
  have "(10::int) dvd int 10" by simp
  then have f1: "manual_removal ?g10
        (infected_vine\<lparr>latency_duration := 0, latency_counter := 0\<rparr>) [] = Inr True"
    using w1 th1 unfolding ns1 v1 by simp
  have "state (agents ?m11 ! 0) = initial_state (agents ?m10 ! 0)"
    using w1 st1 th1 by simp
  then have c1: "state (infected_vine\<lparr>latency_duration := 0, state := SUSCEPTIBLE,
               state_next := Some SUSCEPTIBLE\<rparr>) = initial_state infected_vine"
    using ini1 by simp
  have su2: "model_setup notebook_globals seeded_cell high_deviates [0] = Inr ?s12"
    by code_simp
  have run2: "sim_run 15 notebook_globals ?s12 half_draws 0 = Inr (?g15, ?m15, 3)"
    by code_simp
  have st2: "sim_step ?g15 ?m15 half_draws 3 = Inr (?g16, ?m16, 4)"
    by code_simp
  have go2: "running ?m15" and i2: "0 < length (agents ?m15)"
    and inf2: "state (agents ?m15 ! 0) = INFECTED"
    and nr2: "\<not> fst (self_recovery ?g15 ((agents ?m15 ! 0)\<lparr>latency_counter := 0\<rparr>)
                 (map (\<lambda>j. agents ?m15 ! j) (vineyard_neighbors (positions ?m15) 0)) half_draws
                 (3 + draws_before (agents ?m15) 0))"
    and th2: "removal_threshold ?g15 = 10"
    by code_simp+
  note w2 = manual_removal_synchrony [OF su2 fresh run2 go2 i2 inf2 nr2]
  have ns2: "map (\<lambda>j. agents ?m15 ! j) (vineyard_neighbors (positions ?m15) 0) = []"
    and v2: "(agents ?m15 ! 0)\<lparr>latency_counter := 0\<rparr>
               = infected_vine\<lparr>latency_duration := 12, latency_counter := 0\<rparr>"
    by code_simp+
  have in2: "(15::nat) \<in> {11..19}" by simp
  have f2: "manual_removal ?g15
        (infected_vine\<lparr>latency_duration := 12, latency_counter := 0\<rparr>) [] = Inr False"
    using w2 th2 in2 unfolding ns2 v2 by blast
  have nd: "\<not> (10::int) dvd int 15" by presburger
  have "state (agents ?m16 ! 0) = INFECTED"
    using w2 st2 th2 nd by simp
  then have c2: "state (infected_vine\<lparr>latency_duration := 12\<rparr>) = INFECTED" by simp
  have su3: "model_setup ?z0 seeded_cell low_deviates [0] = Inr seeded_cell_model"
    by code_simp
  have run3: "sim_run 1 ?z0 seeded_cell_model half_draws 0 = Inr (?z1, ?m1, 0)"
    by code_simp
  have go3: "running ?m1" and i3: "0 < length (agents ?m1)"
    and inf3: "state (agents ?m1 ! 0) = INFECTED"
    and nr3: "\<not> fst (self_recovery ?z1 ((agents ?m1 ! 0)\<lparr>latency_counter := 0\<rparr>)
                 (map (\<lambda>j. agents ?m1 ! j) (vineyard_neighbors (positions ?m1) 0)) half_draws
                 (0 + draws_before (agents ?m1) 0))"
    and th3: "removal_threshold ?z1 = 0"
    by code_simp+
  note w3 = manual_removal_synchrony [OF su3 fresh0 run3 go3 i3 inf3 nr3]
  have r3: "sim_step ?z1 ?m1 half_draws 0 = Inl ZeroDivisionError"
    using w3 th3 by simp
  from su1 run1 st1 f1 c1 su2 run2 st2 f2 c2 su3 run3 r3 show ?thesis by blast
qed

text \<open>
  Claim C4, as stated: the latency counter of an agent is reset to 0 in the generation
  in which it stops being latent, and is 0 whenever the agent is not latent. The code
  does not do this: the generation that turns a latent agent into an infected one still
  increments the counter, and the reset happens one generation later. In the run below,
  set up on \<open>2 \<times> 2\<close> cells with one seed, the seeded agent is infected after the first
  generation and its counter is 1.
\<close>

theorem latency_counter_kept_on_infection:
  "model_setup notebook_globals seeded_parameters low_deviates [3] = Inr seeded_model
   \<and> sim_step notebook_globals seeded_model half_draws 0
       = Inr (notebook_globals\<lparr>model_generation := 1\<rparr>,
              seeded_model\<lparr>t := 1, agents :=
                [susceptible_vine\<lparr>latency_duration := 0, state_next := Some SUSCEPTIBLE\<rparr>,
                 susceptible_vine\<lparr>latency_duration := 0, state_next := Some SUSCEPTIBLE\<rparr>,
                 susceptible_vine\<lparr>latency_duration := 0, state_next := Some SUSCEPTIBLE\<rparr>,
                 \<lparr>state = INFECTED, state_next = Some INFECTED, initial_state = SUSCEPTIBLE,
                  infectivity_offset = 10, latency_counter = 1, latency_duration = 0\<rparr>]\<rparr>,
              3)
   \<and> state \<lparr>state = INFECTED, state_next = Some INFECTED, initial_state = SUSCEPTIBLE,
             infectivity_offset = 10, latency_counter = 1, latency_duration = 0\<rparr> \<noteq> LATENT
   \<and> latency_counter \<lparr>state = INFECTED, state_next = Some INFECTED,
             initial_state = SUSCEPTIBLE, infectivity_offset = 10, latency_counter = 1,
             latency_duration = 0\<rparr> \<noteq> 0"
  by code_simp

text \<open>
  Claim C4, amended. In a generation that an agent starts as latent its counter increases
  by exactly 1, also when that generation turns it infected; in a generation that it
  starts as infected the counter is set to 0; in a generation that it starts as
  susceptible or recovered the counter is unchanged. Hence a counter that is 0 whenever
  the agent is susceptible or recovered remains so after the generation.
\<close>

theorem latency_counter_generation:
  assumes "step gl m rs k = Inr (gl', m', k')" and "i < length (agents m)"
  shows "(state (agents m ! i) = LATENT \<longrightarrow>
            latency_counter (agents m' ! i) = latency_counter (agents m ! i) + 1)
       \<and> (state (agents m ! i) = INFECTED \<longrightarrow> latency_counter (agents m' ! i) = 0)
       \<and> (state (agents m ! i) = SUSCEPTIBLE \<or> state (agents m ! i) = RECOVERED \<longrightarrow>
            latency_counter (agents m' ! i) = latency_counter (agents m ! i))
       \<and> ((state (agents m ! i) = SUSCEPTIBLE \<or> state (agents m ! i) = RECOVERED \<longrightarrow>
             latency_counter (agents m ! i) = 0) \<longrightarrow>
           (state (agents m' ! i) = SUSCEPTIBLE \<or> state (agents m' ! i) = RECOVERED \<longrightarrow>
             latency_counter (agents m' ! i) = 0))"
proof -
  let ?v = "agents m ! i" and ?v' = "agents m' ! i"
  from step_agent(2) [OF assms] obtain w ka kb where
    upd: "update_agent gl ?v (map (\<lambda>j. agents m ! j) (vineyard_neighbors (positions m) i)) rs ka
            = Inr (w, kb)" and
    com: "commit w = Inr ?v'"
    by blast
  have cnt: "latency_counter ?v' = latency_counter w" using com by (rule commit_counter)
  have nxt: "Some (state ?v') = state_next w" using com by (rule commit_state)
  show ?thesis
  proof (cases "state ?v")
    case SUSCEPTIBLE
    then show ?thesis using upd cnt nxt
      by (auto simp: update_agent_healthy split: sum.splits prod.splits)
  next
    case LATENT
    then show ?thesis using upd cnt nxt
      by (auto simp: update_agent_latent split: if_splits)
  next
    case INFECTED
    then show ?thesis using upd cnt nxt
      by (auto simp: update_agent_infected update_infected_def Let_def self_recovery_def
               split: sum.splits prod.splits if_splits)
  next
    case RECOVERED
    then show ?thesis using upd cnt nxt
      by (auto simp: update_agent_healthy split: sum.splits prod.splits)
  qed
qed

text \<open>
  In the first generation of the seeded run the latent agent (the last one) counts from
  0 to 1 and the susceptible first agent keeps its 0; in the second generation the same
  agent, now infected, is reset to 0.
\<close>

theorem latency_counter_generation_witness:
  "step notebook_globals (seeded_model\<lparr>t := 1\<rparr>) half_draws 0
     = Inr (notebook_globals\<lparr>model_generation := 1\<rparr>,
            seeded_model\<lparr>t := 1, agents :=
              [susceptible_vine\<lparr>latency_duration := 0, state_next := Some SUSCEPTIBLE\<rparr>,
               susceptible_vine\<lparr>latency_duration := 0, state_next := Some SUSCEPTIBLE\<rparr>,
               susceptible_vine\<lparr>latency_duration := 0, state_next := Some SUSCEPTIBLE\<rparr>,
               latent_vine\<lparr>state := INFECTED, state_next := Some INFECTED,
                 latency_counter := 1\<rparr>]\<rparr>,
            3)
   \<and> state (agents (seeded_model\<lparr>t := 1\<rparr>) ! 3) = LATENT
   \<and> latency_counter (agents (seeded_model\<lparr>t := 1\<rparr>) ! 3) = 0
   \<and> latency_counter (latent_vine\<lparr>state := INFECTED, state_next := Some INFECTED,
        latency_counter := 1\<rparr>) = 0 + 1
   \<and> state (agents (seeded_model\<lparr>t := 1\<rparr>) ! 0) = SUSCEPTIBLE
   \<and> latency_counter (agents (seeded_model\<lparr>t := 1\<rparr>) ! 0) = 0
   \<and> latency_counter (susceptible_vine\<lparr>latency_duration := 0,
        state_next := Some SUSCEPTIBLE\<rparr>) = 0
   \<and> step (notebook_globals\<lparr>model_generation := 10\<rparr>) treated_model half_draws 0
     = Inr (notebook_globals\<lparr>model_generation := 11\<rparr>,
            treated_model\<lparr>agents :=
              [infected_vine\<lparr>state := SUSCEPTIBLE, state_next := Some SUSCEPTIBLE\<rparr>,
               susceptible_vine\<lparr>state := LATENT, state_next := Some LATENT\<rparr>,
               susceptible_vine\<lparr>state := LATENT, state_next := Some LATENT\<rparr>,
               latent_vine\<lparr>state := INFECTED, state_next := Some INFECTED,
                 latency_counter := 1\<rparr>]\<rparr>,
            3)
   \<and> state (agents treated_model ! 0) = INFECTED
   \<and> latency_counter (infected_vine\<lparr>state := SUSCEPTIBLE,
        state_next := Some SUSCEPTIBLE\<rparr>) = 0"
proof -
  let ?m1 = "seeded_model\<lparr>t := 1, agents :=
              [susceptible_vine\<lparr>latency_duration := 0, state_next := Some SUSCEPTIBLE\<rparr>,
               susceptible_vine\<lparr>latency_duration := 0, state_next := Some SUSCEPTIBLE\<rparr>,
               susceptible_vine\<lparr>latency_duration := 0, state_next := Some SUSCEPTIBLE\<rparr>,
               latent_vine\<lparr>state := INFECTED, state_next := Some INFECTED,
                 latency_counter := 1\<rparr>]\<rparr>"
  let ?m2 = "treated_model\<lparr>agents :=
              [infected_vine\<lparr>state := SUSCEPTIBLE, state_next := Some SUSCEPTIBLE\<rparr>,
               susceptible_vine\<lparr>state := LATENT, state_next := Some LATENT\<rparr>,
               susceptible_vine\<lparr>state := LATENT, state_next := Some LATENT\<rparr>,
               latent_vine\<lparr>state := INFECTED, state_next := Some INFECTED,
                 latency_counter := 1\<rparr>]\<rparr>"
  have run1: "step notebook_globals (seeded_model\<lparr>t := 1\<rparr>) half_draws 0
                = Inr (notebook_globals\<lparr>model_generation := 1\<rparr>, ?m1, 3)"
    by code_simp
  have run2: "step (notebook_globals\<lparr>model_generation := 10\<rparr>) treated_model half_draws 0
                = Inr (notebook_globals\<lparr>model_generation := 11\<rparr>, ?m2, 3)"
    by code_simp
  have i3: "3 < length (agents (seeded_model\<lparr>t := 1\<rparr>))"
    and i0: "0 < length (agents (seeded_model\<lparr>t := 1\<rparr>))"
    and j0: "0 < length (agents treated_model)"
    by code_simp+
  have s3: "state (agents (seeded_model\<lparr>t := 1\<rparr>) ! 3) = LATENT"
    and c3: "latency_counter (agents (seeded_model\<lparr>t := 1\<rparr>) ! 3) = 0"
    and s0: "state (agents (seeded_model\<lparr>t := 1\<rparr>) ! 0) = SUSCEPTIBLE"
    and c0: "latency_counter (agents (seeded_model\<lparr>t := 1\<rparr>) ! 0) = 0"
    and t0: "state (agents treated_model ! 0) = INFECTED"
    by code_simp+
  have a: "latency_counter (agents ?m1 ! 3) = 0 + 1"
    using latency_counter_generation [OF run1 i3] s3 c3 by simp
  have b: "latency_counter (agents ?m2 ! 0) = 0"
    using latency_counter_generation [OF run2 j0] t0 by simp
  have c: "latency_counter (agents ?m1 ! 0) = 0"
    using latency_counter_generation [OF run1 i0] s0 c0 by simp
  have "latency_counter (latent_vine\<lparr>state := INFECTED, state_next := Some INFECTED,
        latency_counter := 1\<rparr>) = 0 + 1"
    using a by simp
  moreover have "latency_counter (infected_vine\<lparr>state := SUSCEPTIBLE,
        state_next := Some SUSCEPTIBLE\<rparr>) = 0"
    using b by simp
  moreover have "latency_counter (susceptible_vine\<lparr>latency_duration := 0,
        state_next := Some SUSCEPTIBLE\<rparr>) = 0"
    using c by simp
  ultimately show ?thesis using run1 run2 s3 c3 s0 c0 t0 by blast
qed

text \<open>
  Claim C5. For an infected agent \<^verbatim>\<open>self_recovery\<close> is evaluated first, on the first
  draw of the agent, and has priority: when it fires, \<open>state_next\<close> and \<open>initial_state\<close>
  are both \<open>RECOVERED\<close>, \<open>infectivity_offset\<close> is the value of the resistant cultivar,
  and \<^verbatim>\<open>manual_removal\<close> is not evaluated: the result does not depend on the generation
  counter or the removal threshold, and is a result even where \<^verbatim>\<open>manual_removal\<close>
  would raise.
\<close>

theorem self_recovery_priority:
  assumes "state v = INFECTED"
    and "fst (self_recovery gl (v\<lparr>latency_counter := 0\<rparr>) ns rs k)"
  shows "update_agent gl v ns rs k
           = Inr (v\<lparr>latency_counter := 0,
                    initial_state := RECOVERED,
                    state_next := Some RECOVERED,
                    infectivity_offset := resistant_infectivity_offset gl\<rparr>, Suc k)"
  using assms
  by (simp add: update_agent_infected update_infected_def self_recovery_def Let_def)

text \<open>
  With the counter at 10 and a removal threshold of 0 the remainder in
  \<^verbatim>\<open>manual_removal\<close> would divide by zero; the draw 0 makes \<^verbatim>\<open>self_recovery\<close> fire
  and the update succeeds.
\<close>

theorem self_recovery_priority_witness:
  "state infected_vine = INFECTED
   \<and> fst (self_recovery (notebook_globals\<lparr>model_generation := 10, removal_threshold := 0\<rparr>)
          (infected_vine\<lparr>latency_counter := 0\<rparr>) [] zero_draws 0)
   \<and> manual_removal (notebook_globals\<lparr>model_generation := 10, removal_threshold := 0\<rparr>)
        (infected_vine\<lparr>latency_counter := 0\<rparr>) [] = Inl ZeroDivisionError
   \<and> update_agent (notebook_globals\<lparr>model_generation := 10, removal_threshold := 0\<rparr>)
        infected_vine [] zero_draws 0
       = Inr (infected_vine\<lparr>latency_counter := 0, initial_state := RECOVERED,
                state_next := Some RECOVERED, infectivity_offset := 180\<rparr>, 1)"
proof -
  let ?gl = "notebook_globals\<lparr>model_generation := 10, removal_threshold := 0\<rparr>"
  have inf: "state infected_vine = INFECTED" by code_simp
  have fires: "fst (self_recovery ?gl (infected_vine\<lparr>latency_counter := 0\<rparr>) [] zero_draws 0)"
    by code_simp
  have raises: "manual_removal ?gl (infected_vine\<lparr>latency_counter := 0\<rparr>) []
                  = Inl ZeroDivisionError"
    by code_simp
  have off: "resistant_infectivity_offset ?gl = 180" by code_simp
  have "update_agent ?gl infected_vine [] zero_draws 0
       = Inr (infected_vine\<lparr>latency_counter := 0, initial_state := RECOVERED,
                state_next := Some RECOVERED, infectivity_offset := 180\<rparr>, 1)"
    using self_recovery_priority [OF inf fires] by (simp only: off One_nat_def)
  with inf fires raises show ?thesis by blast
qed

section \<open>Claims about the initialisation\<close>

text \<open>
  Claim C6. After \<open>model_setup\<close> the agent of the cell \<open>(x, y)\<close> is of the resistant
  cultivar (\<open>initial_state = RECOVERED\<close> and the resistant offset) if and only if
  \<open>x mod (D + R) \<ge> D\<close> for the intercropping distance \<open>D\<close> and row count \<open>R\<close>, and of
  the default cultivar (\<open>initial_state = SUSCEPTIBLE\<close> and the default offset) otherwise,
  whatever \<open>y\<close> is. With the values of the notebook the cells with \<open>x mod 10\<close> from 0 to 4
  are susceptible with offset 10 and those from 5 to 9 recovered with offset 180.
\<close>

theorem cultivar_banding:
  assumes "model_setup gl params zs sel = Inr m"
    and "i < length (agents m)"
    and "positions m ! i = (x, y)"
  shows "((initial_state (agents m ! i) = RECOVERED
            \<and> infectivity_offset (agents m ! i) = resistant_infectivity_offset gl)
          \<longleftrightarrow> x mod (intercropping_distance gl + intercropping_row_count gl)
                \<ge> intercropping_distance gl)
       \<and> ((initial_state (agents m ! i) = SUSCEPTIBLE
            \<and> infectivity_offset (agents m ! i) = default_infectivity_offset gl)
          \<longleftrightarrow> x mod (intercropping_distance gl + intercropping_row_count gl)
                < intercropping_distance gl)
       \<and> (intercropping_distance gl = 5 \<and> intercropping_row_count gl = 5
            \<and> default_infectivity_offset gl = 10 \<and> resistant_infectivity_offset gl = 180 \<longrightarrow>
            (x mod 10 \<in> {0..4} \<longrightarrow> initial_state (agents m ! i) = SUSCEPTIBLE
                                   \<and> infectivity_offset (agents m ! i) = 10)
          \<and> (x mod 10 \<in> {5..9} \<longrightarrow> initial_state (agents m ! i) = RECOVERED
                                   \<and> infectivity_offset (agents m ! i) = 180))"
proof -
  let ?D = "intercropping_distance gl" and ?R = "intercropping_row_count gl"
  from model_setup_agents [OF assms(1)] obtain vines chosen where
    v: "set_up_agent_variable_attributes gl (grid_positions (size' params)) zs 0 = Inr vines" and
    a: "agents m = set_latent chosen vines" and
    ps: "positions m = grid_positions (size' params)" and
    len: "length vines = length (grid_positions (size' params))"
    by blast
  have i: "i < length vines" using assms(2) a by (simp add: set_latent_length)
  then have "set_up_agent gl (positions m ! i) (zs i) = Inr (vines ! i)"
    using set_up_attributes_nth [OF v] ps len by simp
  then have su: "set_up_agent gl (x, y) (zs i) = Inr (vines ! i)" using assms(3) by simp
  have ini: "initial_state (agents m ! i) = initial_state (vines ! i)"
    and off: "infectivity_offset (agents m ! i) = infectivity_offset (vines ! i)"
    using a i by (simp_all add: set_latent_nth)
  have r: "x mod (?D + ?R) \<ge> ?D \<Longrightarrow> initial_state (vines ! i) = RECOVERED
          \<and> infectivity_offset (vines ! i) = resistant_infectivity_offset gl" and
    d: "x mod (?D + ?R) < ?D \<Longrightarrow> initial_state (vines ! i) = SUSCEPTIBLE
          \<and> infectivity_offset (vines ! i) = default_infectivity_offset gl"
    using set_up_agent_fields(2,3) [OF su] by simp_all
  have one: "(initial_state (agents m ! i) = RECOVERED
            \<and> infectivity_offset (agents m ! i) = resistant_infectivity_offset gl)
          \<longleftrightarrow> x mod (?D + ?R) \<ge> ?D"
    using r d ini off by (cases "x mod (?D + ?R) \<ge> ?D") auto
  have two: "(initial_state (agents m ! i) = SUSCEPTIBLE
            \<and> infectivity_offset (agents m ! i) = default_infectivity_offset gl)
          \<longleftrightarrow> x mod (?D + ?R) < ?D"
    using r d ini off by (cases "x mod (?D + ?R) \<ge> ?D") auto
  have three: "?D = 5 \<and> ?R = 5
            \<and> default_infectivity_offset gl = 10 \<and> resistant_infectivity_offset gl = 180 \<longrightarrow>
            (x mod 10 \<in> {0..4} \<longrightarrow> initial_state (agents m ! i) = SUSCEPTIBLE
                                   \<and> infectivity_offset (agents m ! i) = 10)
          \<and> (x mod 10 \<in> {5..9} \<longrightarrow> initial_state (agents m ! i) = RECOVERED
                                   \<and> infectivity_offset (agents m ! i) = 180)"
    using r d ini off by auto
  from one two three show ?thesis by blast
qed

text \<open>
  On the grid of \<open>20 \<times> 20\<close> cells: the agent of the cell \<open>(12, 5)\<close> is of the default
  cultivar and the agent of the cell \<open>(17, 10)\<close> of the resistant one.
\<close>

theorem cultivar_banding_witness:
  "model_setup notebook_globals sample_grid zero_deviates [] = Inr sample_model
   \<and> 245 < length (agents sample_model) \<and> positions sample_model ! 245 = (12, 5)
   \<and> 12 mod 10 \<in> {0..4::int}
   \<and> initial_state (agents sample_model ! 245) = SUSCEPTIBLE
   \<and> infectivity_offset (agents sample_model ! 245) = 10
   \<and> 350 < length (agents sample_model) \<and> positions sample_model ! 350 = (17, 10)
   \<and> 17 mod 10 \<in> {5..9::int}
   \<and> initial_state (agents sample_model ! 350) = RECOVERED
   \<and> infectivity_offset (agents sample_model ! 350) = 180"
proof -
  have su: "model_setup notebook_globals sample_grid zero_deviates [] = Inr sample_model"
    by code_simp
  have l1: "245 < length (agents sample_model)"
    and p1: "positions sample_model ! 245 = (12, 5)"
    and l2: "350 < length (agents sample_model)"
    and p2: "positions sample_model ! 350 = (17, 10)"
    by code_simp+
  have g: "intercropping_distance notebook_globals = 5
           \<and> intercropping_row_count notebook_globals = 5
           \<and> default_infectivity_offset notebook_globals = 10
           \<and> resistant_infectivity_offset notebook_globals = 180"
    by code_simp
  have b1: "12 mod 10 \<in> {0..4::int}" and b2: "17 mod 10 \<in> {5..9::int}" by simp_all
  have a: "initial_state (agents sample_model ! 245) = SUSCEPTIBLE
           \<and> infectivity_offset (agents sample_model ! 245) = 10"
    using cultivar_banding [OF su l1 p1] g b1 by blast
  have b: "initial_state (agents sample_model ! 350) = RECOVERED
           \<and> infectivity_offset (agents sample_model ! 350) = 180"
    using cultivar_banding [OF su l2 p2] g b2 by blast
  from su l1 p1 b1 a l2 p2 b2 b show ?thesis by blast
qed

text \<open>
  Claim C8, as stated: \<open>model_setup\<close> fails on every invalid configuration. The code
  contains no validation. With a negative mean latency duration and a negative recovery
  rate it builds the model, and the seeded agent carries the latency duration \<open>- 8\<close>.
\<close>

theorem setup_accepts_invalid_configuration:
  "model_setup (notebook_globals\<lparr>default_latency_duration := - 8, recovery_rate := - 1\<rparr>)
     \<lparr>size' = 1, initial_infection_count = 1, steps = 200\<rparr> zero_deviates [0]
     = Inr \<lparr>p = \<lparr>size' = 1, initial_infection_count = 1, steps = 200\<rparr>, t = 0, running = True,
            agents = [\<lparr>state = LATENT, state_next = None, initial_state = SUSCEPTIBLE,
                       infectivity_offset = 10, latency_counter = 0, latency_duration = - 8\<rparr>],
            positions = [(0, 0)]\<rparr>"
  by code_simp

text \<open>
  Claim C8, amended. \<open>model_setup\<close> checks nothing itself. For a grid size of at least
  1 and an intercropping period that is not 0, it fails exactly when the selection of the
  seeds fails, that is when \<open>initial_infection_count\<close> is negative or exceeds the number
  of cells; the rates, offsets, thresholds and durations are never examined, and each
  agent receives its latency duration as drawn around the configured mean, whatever its
  sign.
\<close>

theorem setup_fails_only_in_sampling:
  assumes "1 \<le> size' params"
    and "intercropping_distance gl + intercropping_row_count gl \<noteq> 0"
  shows "((\<exists>e. model_setup gl params zs sel = Inl e)
           \<longleftrightarrow> (initial_infection_count params < 0
                 \<or> size' params * size' params < initial_infection_count params))
       \<and> (\<forall>m. model_setup gl params zs sel = Inr m \<longrightarrow>
            (\<forall>i < length (agents m).
               latency_duration (agents m ! i)
                 = of_int (default_latency_duration gl) + zs i * 2))"
proof -
  let ?cells = "grid_positions (size' params)"
  obtain vines where
    v: "set_up_agent_variable_attributes gl ?cells zs 0 = Inr vines"
    using set_up_attributes_ok [OF assms(2)] by blast
  have nonneg: "0 \<le> size' params" using assms(1) by simp
  have len: "int (length vines) = size' params * size' params"
    using set_up_attributes_nth [OF v] grid_positions_length [OF nonneg] by simp
  have one: "(\<exists>e. model_setup gl params zs sel = Inl e)
           \<longleftrightarrow> (initial_infection_count params < 0
                 \<or> size' params * size' params < initial_infection_count params)"
  proof -
    have some: "vines \<noteq> [] \<Longrightarrow> 1 \<le> size' params * size' params"
      using len by (cases vines) auto
    have none: "vines = [] \<Longrightarrow> size' params * size' params = 0"
      using len by simp
    show ?thesis
      using v len assms(1) some none
      by (auto simp: model_setup_def agents_random_def Let_def)
  qed
  have two: "\<forall>m. model_setup gl params zs sel = Inr m \<longrightarrow>
            (\<forall>i < length (agents m).
               latency_duration (agents m ! i)
                 = of_int (default_latency_duration gl) + zs i * 2)"
  proof (intro allI impI)
    fix m i
    assume m: "model_setup gl params zs sel = Inr m" and i: "i < length (agents m)"
    from model_setup_agents [OF m] v obtain chosen where
      a: "agents m = set_latent chosen vines" by auto
    have iv: "i < length vines" using i a by (simp add: set_latent_length)
    then have "set_up_agent gl (?cells ! i) (zs i) = Inr (vines ! i)"
      using set_up_attributes_nth [OF v] by simp
    then have "latency_duration (vines ! i) = of_int (default_latency_duration gl) + zs i * 2"
      by (rule set_up_agent_fields(7))
    then show "latency_duration (agents m ! i)
                 = of_int (default_latency_duration gl) + zs i * 2"
      using a iv by (simp add: set_latent_nth)
  qed
  from one two show ?thesis by blast
qed

text \<open>
  One cell and one seed, with a negative mean latency duration and a negative recovery
  rate: the set-up succeeds and the agent's latency duration is \<open>- 8\<close>. One cell and two
  seeds: the set-up fails.
\<close>

theorem setup_fails_only_in_sampling_witness:
  "1 \<le> size' \<lparr>size' = 1, initial_infection_count = 1, steps = 200\<rparr>
   \<and> intercropping_distance
        (notebook_globals\<lparr>default_latency_duration := - 8, recovery_rate := - 1\<rparr>)
      + intercropping_row_count
          (notebook_globals\<lparr>default_latency_duration := - 8, recovery_rate := - 1\<rparr>) \<noteq> 0
   \<and> model_setup (notebook_globals\<lparr>default_latency_duration := - 8, recovery_rate := - 1\<rparr>)
       \<lparr>size' = 1, initial_infection_count = 1, steps = 200\<rparr> zero_deviates [0]
       = Inr \<lparr>p = \<lparr>size' = 1, initial_infection_count = 1, steps = 200\<rparr>, t = 0,
              running = True,
              agents = [\<lparr>state = LATENT, state_next = None, initial_state = SUSCEPTIBLE,
                         infectivity_offset = 10, latency_counter = 0,
                         latency_duration = - 8\<rparr>],
              positions = [(0, 0)]\<rparr>
   \<and> \<not> (\<exists>e. model_setup
               (notebook_globals\<lparr>default_latency_duration := - 8, recovery_rate := - 1\<rparr>)
               \<lparr>size' = 1, initial_infection_count = 1, steps = 200\<rparr> zero_deviates [0]
             = Inl e)
   \<and> latency_duration \<lparr>state = LATENT, state_next = None, initial_state = SUSCEPTIBLE,
        infectivity_offset = 10, latency_counter = 0, latency_duration = - 8\<rparr>
       = of_int (default_latency_duration
           (notebook_globals\<lparr>default_latency_duration := - 8, recovery_rate := - 1\<rparr>))
         + zero_deviates 0 * 2
   \<and> 1 \<le> size' \<lparr>size' = 1, initial_infection_count = 2, steps = 200\<rparr>
   \<and> (\<exists>e. model_setup
             (notebook_globals\<lparr>default_latency_duration := - 8, recovery_rate := - 1\<rparr>)
             \<lparr>size' = 1, initial_infection_count = 2, steps = 200\<rparr> zero_deviates [0]
           = Inl e)"
proof -
  let ?gl = "notebook_globals\<lparr>default_latency_duration := - 8, recovery_rate := - 1\<rparr>"
  let ?one = "\<lparr>size' = 1, initial_infection_count = 1, steps = 200\<rparr>"
  let ?two = "\<lparr>size' = 1, initial_infection_count = 2, steps = 200\<rparr>"
  let ?a = "\<lparr>state = LATENT, state_next = None, initial_state = SUSCEPTIBLE,
             infectivity_offset = 10, latency_counter = 0, latency_duration = - 8\<rparr>"
  let ?m = "\<lparr>p = ?one, t = 0, running = True, agents = [?a], positions = [(0, 0)]\<rparr>"
  have s1: "1 \<le> size' ?one" and s2: "1 \<le> size' ?two" by simp_all
  have nz: "intercropping_distance ?gl + intercropping_row_count ?gl \<noteq> 0" by code_simp
  have su: "model_setup ?gl ?one zero_deviates [0] = Inr ?m" by code_simp
  note w1 = setup_fails_only_in_sampling [OF s1 nz, of zero_deviates "[0]"]
  note w2 = setup_fails_only_in_sampling [OF s2 nz, of zero_deviates "[0]"]
  have ok: "\<not> (\<exists>e. model_setup ?gl ?one zero_deviates [0] = Inl e)"
    using w1 by simp
  have "latency_duration (agents ?m ! 0)
          = of_int (default_latency_duration ?gl) + zero_deviates 0 * 2"
    using w1 su by simp
  then have dur: "latency_duration ?a
          = of_int (default_latency_duration ?gl) + zero_deviates 0 * 2"
    by simp
  have bad: "\<exists>e. model_setup ?gl ?two zero_deviates [0] = Inl e"
    using w2 by simp
  from s1 nz su ok dur s2 bad show ?thesis by blast
qed

text \<open>
  Claim C9. Seeding writes only the \<open>state\<close> of the selected agents: after
  \<open>model_setup\<close> a selected agent is the agent that
  \<open>set_up_agent_variable_attributes\<close> built, with \<open>state\<close> replaced by \<open>LATENT\<close> and
  \<open>initial_state\<close>, \<open>infectivity_offset\<close>, \<open>latency_duration\<close> and \<open>latency_counter\<close>
  as they were, and every other agent is exactly the agent that was built.
\<close>

theorem seeding_frame:
  assumes "model_setup gl params zs sel = Inr m"
  shows "\<exists>vines chosen.
           set_up_agent_variable_attributes gl (grid_positions (size' params)) zs 0 = Inr vines
         \<and> agents_random (length vines) (initial_infection_count params) sel = Inr chosen
         \<and> length (agents m) = length vines
         \<and> (\<forall>i < length vines.
               (i \<in> set chosen \<longrightarrow> agents m ! i = (vines ! i)\<lparr>state := LATENT\<rparr>)
             \<and> (i \<notin> set chosen \<longrightarrow> agents m ! i = vines ! i))"
proof -
  from model_setup_agents [OF assms] obtain vines chosen where
    v: "set_up_agent_variable_attributes gl (grid_positions (size' params)) zs 0 = Inr vines" and
    c: "agents_random (length vines) (initial_infection_count params) sel = Inr chosen" and
    a: "agents m = set_latent chosen vines"
    by blast
  have "length (agents m) = length vines" using a by (simp add: set_latent_length)
  moreover have "\<forall>i < length vines.
               (i \<in> set chosen \<longrightarrow> agents m ! i = (vines ! i)\<lparr>state := LATENT\<rparr>)
             \<and> (i \<notin> set chosen \<longrightarrow> agents m ! i = vines ! i)"
    using a by (simp add: set_latent_nth)
  ultimately show ?thesis using v c by blast
qed

text \<open>
  On \<open>2 \<times> 2\<close> cells with the last agent selected: the last agent differs from the built
  one in \<open>state\<close> only, the first is the built one.
\<close>

theorem seeding_frame_witness:
  "model_setup notebook_globals seeded_parameters low_deviates [3] = Inr seeded_model
   \<and> set_up_agent_variable_attributes notebook_globals
        (grid_positions (size' seeded_parameters)) low_deviates 0
       = Inr [susceptible_vine\<lparr>latency_duration := 0\<rparr>,
              susceptible_vine\<lparr>latency_duration := 0\<rparr>,
              susceptible_vine\<lparr>latency_duration := 0\<rparr>,
              susceptible_vine\<lparr>latency_duration := 0\<rparr>]
   \<and> agents_random 4 (initial_infection_count seeded_parameters) [3] = Inr [3]
   \<and> agents seeded_model ! 3 = (susceptible_vine\<lparr>latency_duration := 0\<rparr>)\<lparr>state := LATENT\<rparr>
   \<and> agents seeded_model ! 0 = susceptible_vine\<lparr>latency_duration := 0\<rparr>"
proof -
  let ?built = "[susceptible_vine\<lparr>latency_duration := 0\<rparr>,
                 susceptible_vine\<lparr>latency_duration := 0\<rparr>,
                 susceptible_vine\<lparr>latency_duration := 0\<rparr>,
                 susceptible_vine\<lparr>latency_duration := 0\<rparr>]"
  have su: "model_setup notebook_globals seeded_parameters low_deviates [3] = Inr seeded_model"
    by code_simp
  have built: "set_up_agent_variable_attributes notebook_globals
        (grid_positions (size' seeded_parameters)) low_deviates 0 = Inr ?built"
    by code_simp
  have picked: "agents_random 4 (initial_infection_count seeded_parameters) [3] = Inr [3]"
    by code_simp
  from seeding_frame [OF su] obtain vines chosen where
    v: "set_up_agent_variable_attributes notebook_globals
          (grid_positions (size' seeded_parameters)) low_deviates 0 = Inr vines" and
    c: "agents_random (length vines) (initial_infection_count seeded_parameters) [3]
          = Inr chosen" and
    f: "\<forall>i < length vines.
          (i \<in> set chosen \<longrightarrow> agents seeded_model ! i = (vines ! i)\<lparr>state := LATENT\<rparr>)
        \<and> (i \<notin> set chosen \<longrightarrow> agents seeded_model ! i = vines ! i)"
    by blast
  have vs: "vines = ?built" using v built by simp
  have "agents_random (length ?built) (initial_infection_count seeded_parameters) [3]
          = Inr [3]"
    by code_simp
  with c [unfolded vs] have ch: "chosen = [3]" by simp
  have "3 < length vines" and "0 < length vines" using vs by simp_all
  with f have
    f3: "3 \<in> set chosen \<longrightarrow> agents seeded_model ! 3 = (vines ! 3)\<lparr>state := LATENT\<rparr>" and
    f0: "0 \<notin> set chosen \<longrightarrow> agents seeded_model ! 0 = vines ! 0"
    by blast+
  have "agents seeded_model ! 3 = (susceptible_vine\<lparr>latency_duration := 0\<rparr>)\<lparr>state := LATENT\<rparr>"
    using f3 vs ch by simp
  moreover have "agents seeded_model ! 0 = susceptible_vine\<lparr>latency_duration := 0\<rparr>"
    using f0 vs ch by simp
  ultimately show ?thesis using su built picked by blast
qed

section \<open>Claims about the run\<close>

text \<open>
  Claim C7. When no agent is latent or infected after the second loop of a step, the
  step stops the simulation (\<open>step_stops_without_active_agent\<close>) and the loop takes no
  further step (\<open>sim_run_stopped\<close>); in particular a run without seeds is to stop after
  its first step. The code breaks the particular case when a uniform draw is \<open>0.0\<close>:
  on a single cell without seeds the only agent, susceptible and without neighbours,
  becomes latent in the first step, the simulation keeps running, and the second step
  is taken.
\<close>

theorem run_continues_without_active_agent:
  "model_setup notebook_globals single_cell zero_deviates [] = Inr lone_model
   \<and> sim_run 1 notebook_globals lone_model zero_draws 0
       = Inr (notebook_globals\<lparr>model_generation := 1\<rparr>,
              lone_model\<lparr>t := 1,
                agents := [susceptible_vine\<lparr>state := LATENT, state_next := Some LATENT\<rparr>]\<rparr>,
              1)
   \<and> running (lone_model\<lparr>t := 1,
                agents := [susceptible_vine\<lparr>state := LATENT, state_next := Some LATENT\<rparr>]\<rparr>)
   \<and> sim_run 2 notebook_globals lone_model zero_draws 0
       = Inr (notebook_globals\<lparr>model_generation := 2\<rparr>,
              lone_model\<lparr>t := 2,
                agents := [susceptible_vine\<lparr>state := LATENT, state_next := Some LATENT,
                             latency_counter := 1\<rparr>]\<rparr>,
              1)"
  by code_simp

section \<open>Claims about the latency duration\<close>

text \<open>
  Claim C10. The latency duration is used as drawn. A latent agent whose latency
  duration is at most its counter plus 1 gets \<open>state_next = INFECTED\<close> in that
  generation, and is infected after the step. In particular \<open>set_up_agent\<close> stores the
  drawn duration unchanged next to a counter of 0, so that a seeded agent whose drawn
  duration is at most 1, negative values included, becomes infected in its first
  generation; and no step changes the latency duration of an agent.
\<close>

theorem latency_duration_unclamped:
  "(state v = LATENT \<and> latency_duration v \<le> of_int (latency_counter v + 1) \<longrightarrow>
      update_agent gl v ns rs k
        = Inr (v\<lparr>latency_counter := latency_counter v + 1, state_next := Some INFECTED\<rparr>, k))
   \<and> (set_up_agent gl position z = Inr a \<longrightarrow>
        latency_counter a = 0
        \<and> latency_duration a = of_int (default_latency_duration gl) + z * 2
        \<and> (of_int (default_latency_duration gl) + z * 2 \<le> 1 \<longrightarrow>
             update_agent gl (a\<lparr>state := LATENT\<rparr>) ns rs k
               = Inr (a\<lparr>state := LATENT, latency_counter := 1,
                        state_next := Some INFECTED\<rparr>, k)))
   \<and> (step gl m rs k = Inr (gl', m', k') \<and> i < length (agents m)
        \<and> state (agents m ! i) = LATENT
        \<and> latency_duration (agents m ! i) \<le> of_int (latency_counter (agents m ! i) + 1) \<longrightarrow>
        state (agents m' ! i) = INFECTED)
   \<and> (step gl m rs k = Inr (gl', m', k') \<and> i < length (agents m) \<longrightarrow>
        latency_duration (agents m' ! i) = latency_duration (agents m ! i))"
proof -
  have one: "state v = LATENT \<and> latency_duration v \<le> of_int (latency_counter v + 1) \<longrightarrow>
      update_agent gl v ns rs k
        = Inr (v\<lparr>latency_counter := latency_counter v + 1, state_next := Some INFECTED\<rparr>, k)"
    by (simp add: update_agent_latent)
  have two: "set_up_agent gl position z = Inr a \<longrightarrow>
        latency_counter a = 0
        \<and> latency_duration a = of_int (default_latency_duration gl) + z * 2
        \<and> (of_int (default_latency_duration gl) + z * 2 \<le> 1 \<longrightarrow>
             update_agent gl (a\<lparr>state := LATENT\<rparr>) ns rs k
               = Inr (a\<lparr>state := LATENT, latency_counter := 1,
                        state_next := Some INFECTED\<rparr>, k))"
  proof
    assume su: "set_up_agent gl position z = Inr a"
    have c: "latency_counter a = 0"
      and d: "latency_duration a = of_int (default_latency_duration gl) + z * 2"
      using set_up_agent_fields(6,7) [OF su] by simp_all
    show "latency_counter a = 0
        \<and> latency_duration a = of_int (default_latency_duration gl) + z * 2
        \<and> (of_int (default_latency_duration gl) + z * 2 \<le> 1 \<longrightarrow>
             update_agent gl (a\<lparr>state := LATENT\<rparr>) ns rs k
               = Inr (a\<lparr>state := LATENT, latency_counter := 1,
                        state_next := Some INFECTED\<rparr>, k))"
      using c d by (simp add: update_agent_latent)
  qed
  have three: "step gl m rs k = Inr (gl', m', k') \<and> i < length (agents m)
        \<and> state (agents m ! i) = LATENT
        \<and> latency_duration (agents m ! i) \<le> of_int (latency_counter (agents m ! i) + 1) \<longrightarrow>
        state (agents m' ! i) = INFECTED"
  proof
    assume h: "step gl m rs k = Inr (gl', m', k') \<and> i < length (agents m)
        \<and> state (agents m ! i) = LATENT
        \<and> latency_duration (agents m ! i) \<le> of_int (latency_counter (agents m ! i) + 1)"
    then have run: "step gl m rs k = Inr (gl', m', k')" and i: "i < length (agents m)"
      and lat: "state (agents m ! i) = LATENT"
      and due: "latency_duration (agents m ! i) \<le> of_int (latency_counter (agents m ! i) + 1)"
      by simp_all
    from step_agent(2) [OF run i] obtain w ka kb where
      upd: "update_agent gl (agents m ! i)
              (map (\<lambda>j. agents m ! j) (vineyard_neighbors (positions m) i)) rs ka
              = Inr (w, kb)" and
      com: "commit w = Inr (agents m' ! i)"
      by blast
    from upd lat due have "state_next w = Some INFECTED"
      by (auto simp: update_agent_latent)
    with commit_state [OF com] show "state (agents m' ! i) = INFECTED" by simp
  qed
  have four: "step gl m rs k = Inr (gl', m', k') \<and> i < length (agents m) \<longrightarrow>
        latency_duration (agents m' ! i) = latency_duration (agents m ! i)"
  proof
    assume "step gl m rs k = Inr (gl', m', k') \<and> i < length (agents m)"
    then have run: "step gl m rs k = Inr (gl', m', k')" and i: "i < length (agents m)"
      by simp_all
    from step_agent(2) [OF run i] obtain w ka kb where
      upd: "update_agent gl (agents m ! i)
              (map (\<lambda>j. agents m ! j) (vineyard_neighbors (positions m) i)) rs ka
              = Inr (w, kb)" and
      com: "commit w = Inr (agents m' ! i)"
      by blast
    show "latency_duration (agents m' ! i) = latency_duration (agents m ! i)"
      using update_agent_duration [OF upd] commit_duration [OF com] by simp
  qed
  from one two three four show ?thesis by blast
qed

text \<open>
  The latent sample agent has the duration 0 and the counter 0. The agent set up with the
  deviate \<open>- 5\<close> has the duration \<open>8 - 5 * 2 = - 2\<close>. In the seeded run the last agent
  is latent with duration 0 and is infected after the first step.
\<close>

theorem latency_duration_unclamped_witness:
  "state latent_vine = LATENT
   \<and> latency_duration latent_vine \<le> of_int (latency_counter latent_vine + 1)
   \<and> update_agent notebook_globals latent_vine [] half_draws 0
       = Inr (latent_vine\<lparr>latency_counter := 1, state_next := Some INFECTED\<rparr>, 0)
   \<and> set_up_agent notebook_globals (0, 0) (- 5) = Inr (susceptible_vine\<lparr>latency_duration := - 2\<rparr>)
   \<and> of_int (default_latency_duration notebook_globals) + (- 5) * 2 \<le> (1::rat)
   \<and> update_agent notebook_globals (susceptible_vine\<lparr>latency_duration := - 2, state := LATENT\<rparr>)
        [] half_draws 0
       = Inr (susceptible_vine\<lparr>latency_duration := - 2, state := LATENT, latency_counter := 1,
                state_next := Some INFECTED\<rparr>, 0)
   \<and> step notebook_globals (seeded_model\<lparr>t := 1\<rparr>) half_draws 0
       = Inr (notebook_globals\<lparr>model_generation := 1\<rparr>,
              seeded_model\<lparr>t := 1, agents :=
                [susceptible_vine\<lparr>latency_duration := 0, state_next := Some SUSCEPTIBLE\<rparr>,
                 susceptible_vine\<lparr>latency_duration := 0, state_next := Some SUSCEPTIBLE\<rparr>,
                 susceptible_vine\<lparr>latency_duration := 0, state_next := Some SUSCEPTIBLE\<rparr>,
                 latent_vine\<lparr>state := INFECTED, state_next := Some INFECTED,
                   latency_counter := 1\<rparr>]\<rparr>,
              3)
   \<and> state (agents (seeded_model\<lparr>t := 1\<rparr>) ! 3) = LATENT
   \<and> state (latent_vine\<lparr>state := INFECTED, state_next := Some INFECTED,
        latency_counter := 1\<rparr>) = INFECTED
   \<and> latency_duration (latent_vine\<lparr>state := INFECTED, state_next := Some INFECTED,
        latency_counter := 1\<rparr>) = latency_duration (agents (seeded_model\<lparr>t := 1\<rparr>) ! 3)"
proof -
  let ?a = "susceptible_vine\<lparr>latency_duration := - 2\<rparr>"
  let ?m = "seeded_model\<lparr>t := 1\<rparr>"
  let ?m1 = "seeded_model\<lparr>t := 1, agents :=
                [susceptible_vine\<lparr>latency_duration := 0, state_next := Some SUSCEPTIBLE\<rparr>,
                 susceptible_vine\<lparr>latency_duration := 0, state_next := Some SUSCEPTIBLE\<rparr>,
                 susceptible_vine\<lparr>latency_duration := 0, state_next := Some SUSCEPTIBLE\<rparr>,
                 latent_vine\<lparr>state := INFECTED, state_next := Some INFECTED,
                   latency_counter := 1\<rparr>]\<rparr>"
  have lat: "state latent_vine = LATENT" by code_simp
  have due: "latency_duration latent_vine \<le> of_int (latency_counter latent_vine + 1)"
    by code_simp
  have cnt: "latency_counter latent_vine = 0" by code_simp
  have su: "set_up_agent notebook_globals (0, 0) (- 5) = Inr ?a" by code_simp
  have low: "of_int (default_latency_duration notebook_globals) + (- 5) * 2 \<le> (1::rat)"
    by code_simp
  have run: "step notebook_globals ?m half_draws 0
               = Inr (notebook_globals\<lparr>model_generation := 1\<rparr>, ?m1, 3)"
    by code_simp
  have i: "3 < length (agents ?m)" by code_simp
  have lat3: "state (agents ?m ! 3) = LATENT" by code_simp
  have due3: "latency_duration (agents ?m ! 3) \<le> of_int (latency_counter (agents ?m ! 3) + 1)"
    by code_simp
  note w1 = latency_duration_unclamped
    [of latent_vine notebook_globals "[]" half_draws 0 "(0, 0)" "- 5" ?a
        ?m "notebook_globals\<lparr>model_generation := 1\<rparr>" ?m1 3 3]
  have u1: "update_agent notebook_globals latent_vine [] half_draws 0
       = Inr (latent_vine\<lparr>latency_counter := 1, state_next := Some INFECTED\<rparr>, 0)"
    using w1 lat due cnt by simp
  have u2: "update_agent notebook_globals (?a\<lparr>state := LATENT\<rparr>) [] half_draws 0
       = Inr (?a\<lparr>state := LATENT, latency_counter := 1, state_next := Some INFECTED\<rparr>, 0)"
    using w1 su low by blast
  have "state (agents ?m1 ! 3) = INFECTED"
    using w1 run i lat3 due3 by blast
  then have u3: "state (latent_vine\<lparr>state := INFECTED, state_next := Some INFECTED,
        latency_counter := 1\<rparr>) = INFECTED"
    by simp
  have "latency_duration (agents ?m1 ! 3) = latency_duration (agents ?m ! 3)"
    using w1 run i by blast
  then have u4: "latency_duration (latent_vine\<lparr>state := INFECTED,
        state_next := Some INFECTED, latency_counter := 1\<rparr>)
      = latency_duration (agents ?m ! 3)"
    by simp
  from lat due u1 su low u2 run lat3 u3 u4 show ?thesis by simp
qed

end
